theory Spec2Isabelle
  imports Main "HOL-Library.AList"
begin

section \<open>Plug'n'Play map generation (src/util/generate-pnp-map.js)\<close>

text \<open>
  The module builds a store of package instances by a recursive visit of the resolved
  dependency graph, and prints the store, an inverse location table and a prefix matcher
  as JavaScript text that is spliced into a template.

  JavaScript \<open>Map\<close> objects iterate in insertion order, and \<open>set\<close> on a key that is
  already present keeps the key's position. They are association lists here:
  \<open>AList.update\<close> is \<open>Map.prototype.set\<close>, \<open>map_of\<close> is \<open>Map.prototype.get\<close>.
  Strings are lists of 8-bit characters.
\<close>

subsection \<open>Data\<close>

type_synonym pattern = string

text \<open>The reference object \<open>pkg._reference\<close>: its \<open>location\<close> may be absent.\<close>

record package_reference =
  ref_location :: "string option"
  ref_dependencies :: "pattern list"

text \<open>
  The manifest returned by the resolver. \<open>pkg_peerDependencies\<close> is
  \<open>Object.keys(pkg.peerDependencies || {})\<close>; the source only ever uses the key set.
\<close>

record manifest =
  pkg_name :: string
  pkg_version :: string
  pkg_main :: "string option"
  pkg_peerDependencies :: "string list"
  pkg_reference :: "package_reference option"

record PackageInformation =
  packageLocation :: string
  packageMainEntry :: "string option"
  packageDependencies :: "(string \<times> string) list"

type_synonym PackageInformationStore = "(string option \<times> PackageInformation) list"
type_synonym PackageInformationStores = "(string option \<times> PackageInformationStore) list"

text \<open>
  What the module takes from outside: the resolver, the digest (\<open>crypto\<close>), Node's
  \<open>path\<close> module and the file system helpers of \<open>./fs.js\<close>. The file system is a state
  of an arbitrary type \<open>'fs\<close>; \<open>symlink\<close> and \<open>realpath\<close> may fail (\<open>None\<close>).
  A resolver that gives \<open>None\<close> returned a falsy value.
\<close>

record 'fs collaborators =
  getStrictResolvedPattern :: "pattern \<Rightarrow> manifest option"
  sha1_hex :: "string \<Rightarrow> string"
  path_sep :: char
  path_dirname :: "string \<Rightarrow> string"
  path_resolve :: "string \<Rightarrow> string \<Rightarrow> string"
  fs_symlink :: "'fs \<Rightarrow> string \<Rightarrow> string \<Rightarrow> 'fs option"
  fs_realpath :: "'fs \<Rightarrow> string \<Rightarrow> string option"

datatype error =
    TypeError
  | SymlinkError
  | RealpathError
  | ReferenceNotComputed
  | LocationNotComputed

subsection \<open>Small helpers of the language\<close>

text \<open>A string is truthy when it is defined and not empty.\<close>

definition truthy :: "string option \<Rightarrow> string option" where
  "truthy v = (case v of None \<Rightarrow> None | Some s \<Rightarrow> if s = [] then None else Some s)"

text \<open>
  \<open>loc.replace(/[\\\/]?$/, path.sep)\<close>: the pattern matches a slash or backslash
  that is the last character, and otherwise the empty string at the end.
\<close>

definition slash_or_backslash :: "char \<Rightarrow> bool" where
  "slash_or_backslash c = (c = CHR ''/'' \<or> c = CHR 0x5C)"

definition replace_trailing_sep :: "char \<Rightarrow> string \<Rightarrow> string" where
  "replace_trailing_sep sep loc =
     (if loc \<noteq> [] \<and> slash_or_backslash (last loc) then butlast loc @ [sep] else loc @ [sep])"

subsection \<open>getPackageInformationStores\<close>

definition getHashFrom :: "'fs collaborators \<Rightarrow> string list \<Rightarrow> string" where
  "getHashFrom env data = sha1_hex env (concat data)"

definition getResolverEntry ::
  "'fs collaborators \<Rightarrow> pattern \<Rightarrow> error + (manifest \<times> package_reference \<times> string) option" where
  "getResolverEntry env pattern =
     (case getStrictResolvedPattern env pattern of
        None \<Rightarrow> Inl TypeError
      | Some pkg \<Rightarrow>
          (case pkg_reference pkg of
             None \<Rightarrow> Inr None
           | Some ref \<Rightarrow>
               (case truthy (ref_location ref) of
                  None \<Rightarrow> Inr None
                | Some loc \<Rightarrow> Inr (Some (pkg, ref, loc)))))"

text \<open>The first loop of \<open>visit\<close>: the reference and the location of every seed pattern.\<close>

fun pass1 ::
  "'fs collaborators \<Rightarrow> string list \<Rightarrow> pattern list \<Rightarrow>
   (string \<times> string) list \<Rightarrow> (string \<times> string) list \<Rightarrow> 'fs \<Rightarrow>
   error + ((string \<times> string) list \<times> (string \<times> string) list \<times> 'fs)" where
  "pass1 env parentData [] resolutions locations fs = Inr (resolutions, locations, fs)"
| "pass1 env parentData (pattern # rest) resolutions locations fs =
     (case getResolverEntry env pattern of
        Inl e \<Rightarrow> Inl e
      | Inr None \<Rightarrow> pass1 env parentData rest resolutions locations fs
      | Inr (Some (pkg, ref, loc)) \<Rightarrow>
          (let packageName = pkg_name pkg;
               packageReference = pkg_version pkg
           in if pkg_peerDependencies pkg \<noteq> [] then
                (let hash = getHashFrom env (parentData @ [packageName, packageReference]);
                     newLoc = path_resolve env (path_dirname env loc) (''pnp-'' @ hash)
                 in case fs_symlink env fs loc newLoc of
                      None \<Rightarrow> Inl SymlinkError
                    | Some fs' \<Rightarrow>
                        pass1 env parentData rest
                          (AList.update packageName (''pnp:'' @ hash) resolutions)
                          (AList.update packageName newLoc locations) fs')
              else
                pass1 env parentData rest
                  (AList.update packageName packageReference resolutions)
                  (AList.update packageName loc locations) fs))"

text \<open>
  \<open>packageInformationStores.get(packageName)\<close>, creating and registering an empty
  store when there is none.
\<close>

definition store_of ::
  "string \<Rightarrow> PackageInformationStores \<Rightarrow> PackageInformationStore \<times> PackageInformationStores" where
  "store_of packageName stores =
     (case map_of stores (Some packageName) of
        None \<Rightarrow> ([], AList.update (Some packageName) [] stores)
      | Some store \<Rightarrow> (store, stores))"

text \<open>
  \<open>ref.dependencies.filter(...)\<close>: a pattern stays when the resolver gives nothing for
  it or when its package is not one of the peer dependencies.
\<close>

definition directDependencies ::
  "'fs collaborators \<Rightarrow> string list \<Rightarrow> package_reference \<Rightarrow> pattern list" where
  "directDependencies env peerDependencies ref =
     filter (\<lambda>pattern. case getStrictResolvedPattern env pattern of
                          None \<Rightarrow> True
                        | Some pkg \<Rightarrow> pkg_name pkg \<notin> set peerDependencies)
       (ref_dependencies ref)"

text \<open>The last loop of an iteration: the peer dependencies the scope has resolved.\<close>

fun inject_peers ::
  "(string \<times> string) list \<Rightarrow> string list \<Rightarrow> (string \<times> string) list \<Rightarrow> (string \<times> string) list" where
  "inject_peers resolutions [] deps = deps"
| "inject_peers resolutions (dependencyName # rest) deps =
     (case truthy (map_of resolutions dependencyName) of
        None \<Rightarrow> inject_peers resolutions rest deps
      | Some dependencyReference \<Rightarrow>
          inject_peers resolutions rest (AList.update dependencyName dependencyReference deps))"

text \<open>
  The object stored under \<open>(packageName, packageReference)\<close> is mutated in place after
  the recursion; the store holds that very object, so the mutation is an update of the
  entry under its key.
\<close>

definition set_packageDependencies ::
  "string \<Rightarrow> string \<Rightarrow> (string \<times> string) list \<Rightarrow> PackageInformationStores \<Rightarrow> PackageInformationStores" where
  "set_packageDependencies packageName packageReference deps stores =
     AList.map_entry (Some packageName)
       (AList.map_entry (Some packageReference) (\<lambda>info. info\<lparr>packageDependencies := deps\<rparr>))
       stores"

text \<open>
  One iteration of the second loop of \<open>visit\<close>, up to the point where it either goes
  on to the next pattern (\<open>Continue\<close>: the pattern was skipped or its package instance
  is registered already) or has inserted a new entry with no dependencies yet and is about
  to recurse (\<open>Recurse\<close>).
\<close>

datatype iteration =
    Continue PackageInformationStores
  | Recurse manifest package_reference string PackageInformationStores

definition pass2_entry ::
  "'fs collaborators \<Rightarrow> pattern \<Rightarrow> (string \<times> string) list \<Rightarrow> (string \<times> string) list \<Rightarrow>
   PackageInformationStores \<Rightarrow> error + iteration" where
  "pass2_entry env pattern resolutions locations stores =
     (case getResolverEntry env pattern of
        Inl e \<Rightarrow> Inl e
      | Inr None \<Rightarrow> Inr (Continue stores)
      | Inr (Some (pkg, ref, _)) \<Rightarrow>
          (case truthy (map_of resolutions (pkg_name pkg)) of
             None \<Rightarrow> Inl ReferenceNotComputed
           | Some packageReference \<Rightarrow>
               (case truthy (map_of locations (pkg_name pkg)) of
                  None \<Rightarrow> Inl LocationNotComputed
                | Some loc \<Rightarrow>
                    (case map_of (fst (store_of (pkg_name pkg) stores)) (Some packageReference) of
                       Some _ \<Rightarrow> Inr (Continue (snd (store_of (pkg_name pkg) stores)))
                     | None \<Rightarrow>
                         Inr (Recurse pkg ref packageReference
                                (AList.update (Some (pkg_name pkg))
                                   (AList.update (Some packageReference)
                                      \<lparr>packageLocation = replace_trailing_sep (path_sep env) loc,
                                       packageMainEntry = pkg_main pkg,
                                       packageDependencies = []\<rparr>
                                      (fst (store_of (pkg_name pkg) stores)))
                                   (snd (store_of (pkg_name pkg) stores))))))))"

text \<open>
  \<open>visit\<close> and its second loop. The recursion of the source has no bound of its own,
  so the model carries fuel: the first argument bounds the nesting depth of \<open>visit\<close>,
  and \<open>None\<close> says that the bound was reached. The parameter \<open>availablePackages\<close>
  of the source is never read and is left out; the stores, which the source shares
  between all calls, and the file system are passed in and returned.
\<close>

function (sequential) visit ::
  "nat \<Rightarrow> 'fs collaborators \<Rightarrow> pattern list \<Rightarrow> string list \<Rightarrow> PackageInformationStores \<Rightarrow> 'fs \<Rightarrow>
   (error + ((string \<times> string) list \<times> PackageInformationStores \<times> 'fs)) option"
and pass2 ::
  "nat \<Rightarrow> 'fs collaborators \<Rightarrow> pattern list \<Rightarrow> (string \<times> string) list \<Rightarrow> (string \<times> string) list \<Rightarrow>
   PackageInformationStores \<Rightarrow> 'fs \<Rightarrow> (error + (PackageInformationStores \<times> 'fs)) option" where
  "visit 0 env seedPatterns parentData stores fs = None"
| "visit (Suc n) env seedPatterns parentData stores fs =
     (case pass1 env parentData seedPatterns [] [] fs of
        Inl e \<Rightarrow> Some (Inl e)
      | Inr (resolutions, locations, fs1) \<Rightarrow>
          (case pass2 n env seedPatterns resolutions locations stores fs1 of
             None \<Rightarrow> None
           | Some (Inl e) \<Rightarrow> Some (Inl e)
           | Some (Inr (stores', fs2)) \<Rightarrow> Some (Inr (resolutions, stores', fs2))))"
| "pass2 n env [] resolutions locations stores fs = Some (Inr (stores, fs))"
| "pass2 n env (pattern # rest) resolutions locations stores fs =
     (case pass2_entry env pattern resolutions locations stores of
        Inl e \<Rightarrow> Some (Inl e)
      | Inr (Continue stores1) \<Rightarrow> pass2 n env rest resolutions locations stores1 fs
      | Inr (Recurse pkg ref packageReference stores1) \<Rightarrow>
          (case visit n env (directDependencies env (pkg_peerDependencies pkg) ref)
                  [pkg_name pkg, packageReference] stores1 fs of
             None \<Rightarrow> None
           | Some (Inl e) \<Rightarrow> Some (Inl e)
           | Some (Inr (deps, stores', fs')) \<Rightarrow>
               pass2 n env rest resolutions locations
                 (set_packageDependencies (pkg_name pkg) packageReference
                    (inject_peers resolutions (pkg_peerDependencies pkg) deps) stores')
                 fs'))"
  by pat_completeness auto

termination
  by (relation "measures
        [\<lambda>x. case x of Inl (n, _) \<Rightarrow> 2 * n | Inr (n, _) \<Rightarrow> 2 * n + 1,
         \<lambda>x. case x of Inl _ \<Rightarrow> 0 | Inr (_, _, ps, _) \<Rightarrow> length ps]") auto

text \<open>
  The root entry is stored under the name \<open>null\<close> after the visit of the seed patterns;
  \<open>realpath\<close> of the lockfile folder is awaited before the visit starts.
\<close>

definition getPackageInformationStores ::
  "nat \<Rightarrow> 'fs collaborators \<Rightarrow> string \<Rightarrow> pattern list \<Rightarrow> 'fs \<Rightarrow>
   (error + (PackageInformationStores \<times> 'fs)) option" where
  "getPackageInformationStores n env lockfileFolder seedPatterns fs =
     (case fs_realpath env fs lockfileFolder of
        None \<Rightarrow> Some (Inl RealpathError)
      | Some root \<Rightarrow>
          (case visit n env seedPatterns [] [] fs of
             None \<Rightarrow> None
           | Some (Inl e) \<Rightarrow> Some (Inl e)
           | Some (Inr (deps, stores, fs')) \<Rightarrow>
               Some (Inr (AList.update None
                            [(None, \<lparr>packageLocation = replace_trailing_sep (path_sep env) root,
                                     packageMainEntry = None,
                                     packageDependencies = deps\<rparr>)]
                            stores, fs'))))"

subsection \<open>generateMaps\<close>

text \<open>
  \<open>JSON.stringify\<close> of a string: the quoted string with the escapes of the language
  standard (\<open>QuoteJSONString\<close>); of \<open>null\<close>: the word \<open>null\<close>.
\<close>

definition hex_digit :: "nat \<Rightarrow> char" where
  "hex_digit d = ''0123456789abcdef'' ! d"

definition quote_json_char :: "char \<Rightarrow> string" where
  "quote_json_char c =
     (if c = CHR 0x08 then [CHR 0x5C, CHR ''b'']
      else if c = CHR 0x09 then [CHR 0x5C, CHR ''t'']
      else if c = CHR 0x0A then [CHR 0x5C, CHR ''n'']
      else if c = CHR 0x0C then [CHR 0x5C, CHR ''f'']
      else if c = CHR 0x0D then [CHR 0x5C, CHR ''r'']
      else if c = CHR 0x22 then [CHR 0x5C, CHR 0x22]
      else if c = CHR 0x5C then [CHR 0x5C, CHR 0x5C]
      else if (of_char c :: nat) < 0x20 then
        [CHR 0x5C, CHR ''u'', CHR ''0'', CHR ''0'',
         hex_digit ((of_char c :: nat) div 16), hex_digit ((of_char c :: nat) mod 16)]
      else [c])"

definition stringify_string :: "string \<Rightarrow> string" where
  "stringify_string s = [CHR 0x22] @ concat (map quote_json_char s) @ [CHR 0x22]"

definition stringify :: "string option \<Rightarrow> string" where
  "stringify v = (case v of None \<Rightarrow> ''null'' | Some s \<Rightarrow> stringify_string s)"

text \<open>\<open>JSON.stringify({name: packageName, reference: packageReference})\<close>.\<close>

definition stringify_locator :: "string \<Rightarrow> string option \<Rightarrow> string" where
  "stringify_locator packageName packageReference =
     ''{'' @ stringify_string ''name'' @ '':'' @ stringify_string packageName @ '','' @
     stringify_string ''reference'' @ '':'' @ stringify packageReference @ ''}''"

definition nl :: string where
  "nl = [CHR 0x0A]"

definition generateDependency :: "string \<times> string \<Rightarrow> string" where
  "generateDependency d =
     ''        ['' @ stringify_string (fst d) @ '', '' @ stringify_string (snd d) @ ''],'' @ nl"

definition generateInformation :: "string option \<times> PackageInformation \<Rightarrow> string" where
  "generateInformation e =
     ''    ['' @ stringify (fst e) @ '', {'' @ nl @
     ''      packageLocation: '' @ stringify_string (packageLocation (snd e)) @ '','' @ nl @
     (case truthy (packageMainEntry (snd e)) of
        None \<Rightarrow> []
      | Some mainEntry \<Rightarrow>
          ''      packageMainEntry: '' @ stringify_string mainEntry @ '','' @ nl) @
     ''      packageDependencies: new Map(['' @ nl @
     concat (map generateDependency (packageDependencies (snd e))) @
     ''      ]),'' @ nl @
     ''    }],'' @ nl"

definition generateStore :: "string option \<times> PackageInformationStore \<Rightarrow> string" where
  "generateStore e =
     ''  ['' @ stringify (fst e) @ '', new Map(['' @ nl @
     concat (map generateInformation (snd e)) @
     ''  ])],'' @ nl"

definition generateLocator :: "string option \<Rightarrow> string option \<times> PackageInformation \<Rightarrow> string" where
  "generateLocator packageName e =
     (case packageName of
        Some n \<Rightarrow>
          ''  ['' @ stringify_string (packageLocation (snd e)) @ '', '' @
          stringify_locator n (fst e) @ ''],'' @ nl
      | None \<Rightarrow>
          ''  ['' @ stringify_string (packageLocation (snd e)) @ '', topLevelLocator],'' @ nl)"

definition generateMaps :: "PackageInformationStores \<Rightarrow> string" where
  "generateMaps packageInformationStores =
     ''let packageInformationStores = new Map(['' @ nl @
     concat (map generateStore packageInformationStores) @
     '']);'' @ nl @
     nl @
     ''let locatorsByLocations = new Map(['' @ nl @
     concat (map (\<lambda>e. concat (map (generateLocator (fst e)) (snd e))) packageInformationStores) @
     '']);'' @ nl"

subsection \<open>generateFindPackageLocator\<close>

text \<open>Decimal digits of a number, as a template literal prints it.\<close>

function decimal :: "nat \<Rightarrow> string" where
  "decimal n =
     (if n < 10 then [''0123456789'' ! n] else decimal (n div 10) @ [''0123456789'' ! (n mod 10)])"
  by pat_completeness auto

termination
  by (relation "measure id") auto

text \<open>Every \<open>packageLocation\<close> of the stores, in iteration order.\<close>

definition packageLocations :: "PackageInformationStores \<Rightarrow> string list" where
  "packageLocations packageInformationStores =
     concat (map (\<lambda>e. map (\<lambda>i. packageLocation (snd i)) (snd e)) packageInformationStores)"

text \<open>\<open>lengths.set(n, (lengths.get(n) || 0) + 1)\<close>.\<close>

definition count_length :: "(nat \<times> nat) list \<Rightarrow> nat \<Rightarrow> (nat \<times> nat) list" where
  "count_length lengths n =
     AList.update n ((case map_of lengths n of None \<Rightarrow> 0 | Some c \<Rightarrow> c) + 1) lengths"

definition location_lengths :: "PackageInformationStores \<Rightarrow> (nat \<times> nat) list" where
  "location_lengths packageInformationStores =
     foldl count_length [] (map length (packageLocations packageInformationStores))"

text \<open>
  \<open>Array.from(lengths.entries()).sort((a, b) => b[1] - a[1])\<close>: a stable sort, larger
  counts first.
\<close>

definition sortedLengths :: "PackageInformationStores \<Rightarrow> (nat \<times> nat) list" where
  "sortedLengths packageInformationStores =
     sort_key (\<lambda>e. - int (snd e)) (location_lengths packageInformationStores)"

definition generateLengthTest :: "nat \<times> nat \<Rightarrow> string" where
  "generateLengthTest e =
     nl @
     ''  if (location.length >= '' @ decimal (fst e) @ '' && location['' @ decimal (fst e) @
       '' - 1] === path.sep)'' @ nl @
     ''    if (match = locatorsByLocations.get(location.substr(0, '' @ decimal (fst e) @ '')))'' @ nl @
     ''      return match;'' @ nl"

definition generateFindPackageLocator :: "PackageInformationStores \<Rightarrow> string" where
  "generateFindPackageLocator packageInformationStores =
     ''exports.findPackageLocator = function findPackageLocator(location) {'' @ nl @
     ''  let match;'' @ nl @
     concat (map generateLengthTest (sortedLengths packageInformationStores)) @
     nl @
     ''  return null;'' @ nl @
     ''};'' @ nl"

subsection \<open>generatePnpMap\<close>

text \<open>
  \<open>pnpApi.replace(/\$\$SETUP_STATIC_TABLES\(\);/, setupStaticTables)\<close>. The pattern
  has no flag and matches one fixed text, so \<open>replace\<close> looks for the first occurrence
  of that text; a string without it is returned as it is. In the replacement text
  the language expands \<open>$$\<close>, \<open>$&\<close>, \<open>$`\<close> and \<open>$'\<close>.
\<close>

definition marker :: string where
  "marker = ''$$SETUP_STATIC_TABLES();''"

fun find_first :: "string \<Rightarrow> string \<Rightarrow> (string \<times> string) option" where
  "find_first m [] = (if m = [] then Some ([], []) else None)"
| "find_first m (c # cs) =
     (if take (length m) (c # cs) = m then Some ([], drop (length m) (c # cs))
      else (case find_first m cs of
              None \<Rightarrow> None
            | Some (pre, post) \<Rightarrow> Some (c # pre, post)))"

fun get_substitution :: "string \<Rightarrow> string \<Rightarrow> string \<Rightarrow> string \<Rightarrow> string" where
  "get_substitution matched pre post (c # d # rest) =
     (if c = CHR ''$'' \<and> d = CHR ''$'' then CHR ''$'' # get_substitution matched pre post rest
      else if c = CHR ''$'' \<and> d = CHR ''&'' then matched @ get_substitution matched pre post rest
      else if c = CHR ''$'' \<and> d = CHR 0x60 then pre @ get_substitution matched pre post rest
      else if c = CHR ''$'' \<and> d = CHR 0x27 then post @ get_substitution matched pre post rest
      else c # get_substitution matched pre post (d # rest))"
| "get_substitution matched pre post rest = rest"

definition string_replace :: "string \<Rightarrow> string \<Rightarrow> string \<Rightarrow> string" where
  "string_replace m replacement s =
     (case find_first m s of
        None \<Rightarrow> s
      | Some (pre, post) \<Rightarrow> pre @ get_substitution m pre post replacement @ post)"

definition generatePnpMap ::
  "nat \<Rightarrow> 'fs collaborators \<Rightarrow> string \<Rightarrow> string \<Rightarrow> pattern list \<Rightarrow> 'fs \<Rightarrow>
   (error + (string \<times> 'fs)) option" where
  "generatePnpMap n env pnpApi lockfileFolder seedPatterns fs =
     (case getPackageInformationStores n env lockfileFolder seedPatterns fs of
        None \<Rightarrow> None
      | Some (Inl e) \<Rightarrow> Some (Inl e)
      | Some (Inr (packageInformationStores, fs')) \<Rightarrow>
          Some (Inr (string_replace marker
                       (generateMaps packageInformationStores @
                        generateFindPackageLocator packageInformationStores)
                       pnpApi,
                     fs')))"

subsection \<open>Example collaborators\<close>

text \<open>
  A resolver given by a table of manifests, POSIX separators, a file system on which
  every operation succeeds, and the identity as digest: it never maps two token
  strings to one value, so whatever coincides below coincides for every digest.
\<close>

definition package :: "string \<Rightarrow> string \<Rightarrow> string list \<Rightarrow> string \<Rightarrow> pattern list \<Rightarrow> manifest" where
  "package n v peers loc deps =
     \<lparr>pkg_name = n, pkg_version = v, pkg_main = None, pkg_peerDependencies = peers,
      pkg_reference = Some \<lparr>ref_location = Some loc, ref_dependencies = deps\<rparr>\<rparr>"

definition posix_env :: "(pattern \<times> manifest) list \<Rightarrow> unit collaborators" where
  "posix_env graph =
     \<lparr>getStrictResolvedPattern = map_of graph,
      sha1_hex = (\<lambda>s. s),
      path_sep = CHR ''/'',
      path_dirname = (\<lambda>s. s),
      path_resolve = (\<lambda>d f. d @ ''/'' @ f),
      fs_symlink = (\<lambda>fs _ _. Some fs),
      fs_realpath = (\<lambda>fs p. Some p)\<rparr>"

text \<open>The scenario of the specification: \<open>root-dep\<close> depends on \<open>lib\<close>.\<close>

definition scenario_graph :: "(pattern \<times> manifest) list" where
  "scenario_graph =
     [(''root-dep@^1.0.0'', package ''root-dep'' ''1.0.0'' [] ''/cache/root-dep'' [''lib@^2.0.0'']),
      (''lib@^2.0.0'', package ''lib'' ''2.0.0'' [] ''/cache/lib'' [])]"

subsection \<open>Vocabulary of the statements\<close>

text \<open>The distinct elements of a list, in the order in which they are first met.\<close>

fun first_encounters :: "'a list \<Rightarrow> 'a list" where
  "first_encounters [] = []"
| "first_encounters (x # xs) = x # removeAll x (first_encounters xs)"

text \<open>An application with an optional dependency that was not installed.\<close>

definition optional_graph :: "(pattern \<times> manifest) list" where
  "optional_graph =
     [(''app@1'', package ''app'' ''1.0.0'' [] ''/cache/app'' [''fsevents@1'', ''lib@^2.0.0'']),
      (''fsevents@1'', \<lparr>pkg_name = ''fsevents'', pkg_version = ''1.2.4'', pkg_main = None,
                        pkg_peerDependencies = [], pkg_reference = None\<rparr>),
      (''lib@^2.0.0'', package ''lib'' ''2.0.0'' [] ''/cache/lib'' [])]"

text \<open>
  Reading the store, \<open>packageInformationStores.get(name).get(reference)\<close>; the entry
  an iteration builds for a new instance; and the store after that entry was registered.
\<close>

definition store_lookup ::
  "PackageInformationStores \<Rightarrow> string option \<Rightarrow> string option \<Rightarrow> PackageInformation option" where
  "store_lookup stores packageName packageReference =
     (case map_of stores packageName of
        None \<Rightarrow> None
      | Some store \<Rightarrow> map_of store packageReference)"

definition new_information :: "'fs collaborators \<Rightarrow> manifest \<Rightarrow> string \<Rightarrow> PackageInformation" where
  "new_information env pkg loc =
     \<lparr>packageLocation = replace_trailing_sep (path_sep env) loc,
      packageMainEntry = pkg_main pkg,
      packageDependencies = []\<rparr>"

definition register_information ::
  "string \<Rightarrow> string \<Rightarrow> PackageInformation \<Rightarrow> PackageInformationStores \<Rightarrow> PackageInformationStores" where
  "register_information packageName packageReference info stores =
     AList.update (Some packageName)
       (AList.update (Some packageReference) info
          (case map_of stores (Some packageName) of None \<Rightarrow> [] | Some store \<Rightarrow> store))
       stores"

text \<open>
  A location ends with the separator; it ends with exactly one separator; and a
  location is tidy when what is left of it, once a final slash or backslash is taken
  away, does not end with the separator.
\<close>

definition ends_with_sep :: "char \<Rightarrow> string \<Rightarrow> bool" where
  "ends_with_sep sep l = (l \<noteq> [] \<and> last l = sep)"

definition one_trailing_sep :: "char \<Rightarrow> string \<Rightarrow> bool" where
  "one_trailing_sep sep l =
     (ends_with_sep sep l \<and> \<not> ends_with_sep sep (butlast l))"

definition tidy :: "char \<Rightarrow> string \<Rightarrow> bool" where
  "tidy sep loc =
     (\<not> ends_with_sep sep
          (if loc \<noteq> [] \<and> slash_or_backslash (last loc) then butlast loc else loc))"

text \<open>
  What the first pass records for a resolved manifest: the version and the location, or
  the virtual reference and the location of the symbolic link when the manifest has
  peer dependencies.
\<close>

definition reference_of :: "'fs collaborators \<Rightarrow> string list \<Rightarrow> manifest \<Rightarrow> string" where
  "reference_of env parentData pkg =
     (if pkg_peerDependencies pkg = [] then pkg_version pkg
      else ''pnp:'' @ getHashFrom env (parentData @ [pkg_name pkg, pkg_version pkg]))"

definition location_of :: "'fs collaborators \<Rightarrow> string list \<Rightarrow> manifest \<Rightarrow> string \<Rightarrow> string" where
  "location_of env parentData pkg loc =
     (if pkg_peerDependencies pkg = [] then loc
      else path_resolve env (path_dirname env loc)
             (''pnp-'' @ getHashFrom env (parentData @ [pkg_name pkg, pkg_version pkg])))"

text \<open>A resolver that reports a location with two trailing slashes.\<close>

definition untidy_graph :: "(pattern \<times> manifest) list" where
  "untidy_graph = [(''lib@^2.0.0'', package ''lib'' ''2.0.0'' [] ''/cache/lib//'' [])]"

text \<open>The stores of the specification's scenario.\<close>

definition scenario_stores :: PackageInformationStores where
  "scenario_stores =
     [(Some ''root-dep'', [(Some ''1.0.0'',
         \<lparr>packageLocation = ''/cache/root-dep/'', packageMainEntry = None,
          packageDependencies = [(''lib'', ''2.0.0'')]\<rparr>)]),
      (Some ''lib'', [(Some ''2.0.0'',
         \<lparr>packageLocation = ''/cache/lib/'', packageMainEntry = None,
          packageDependencies = []\<rparr>)]),
      (None, [(None,
         \<lparr>packageLocation = ''/proj/'', packageMainEntry = None,
          packageDependencies = [(''root-dep'', ''1.0.0'')]\<rparr>)])]"

text \<open>The two failures of \<open>invariant(...)\<close> in the second loop.\<close>

definition invariant_failure :: "error \<Rightarrow> bool" where
  "invariant_failure e = (e = ReferenceNotComputed \<or> e = LocationNotComputed)"

text \<open>
  Two packages that need each other as peers, under one application; \<open>react\<close> also
  names a peer that nothing in the application provides.
\<close>

definition peer_graph :: "(pattern \<times> manifest) list" where
  "peer_graph =
     [(''app@1'', package ''app'' ''1.0.0'' [] ''/cache/app'' [''react@16'', ''react-dom@16'']),
      (''react@16'', package ''react'' ''16.0.0'' [''react-dom'', ''prop-types''] ''/cache/react'' []),
      (''react-dom@16'', package ''react-dom'' ''16.0.0'' [''react''] ''/cache/react-dom'' [''react@16''])]"




text \<open>
  The second loop over the dependencies of \<open>app\<close> in the peer example: what the first
  pass has recorded, and the stores before the loop, after \<open>react\<close> was registered,
  and after the loop.
\<close>

definition peer_resolutions :: "(string \<times> string) list" where
  "peer_resolutions =
     [(''react'', ''pnp:app1.0.0react16.0.0''), (''react-dom'', ''pnp:app1.0.0react-dom16.0.0'')]"

definition peer_locations :: "(string \<times> string) list" where
  "peer_locations =
     [(''react'', ''/cache/react/pnp-app1.0.0react16.0.0''),
      (''react-dom'', ''/cache/react-dom/pnp-app1.0.0react-dom16.0.0'')]"

definition peer_before :: PackageInformationStores where
  "peer_before =
     [(Some ''app'', [(Some ''1.0.0'',
         \<lparr>packageLocation = ''/cache/app/'', packageMainEntry = None,
          packageDependencies = []\<rparr>)])]"

definition peer_entered :: PackageInformationStores where
  "peer_entered =
     [(Some ''app'', [(Some ''1.0.0'',
         \<lparr>packageLocation = ''/cache/app/'', packageMainEntry = None,
          packageDependencies = []\<rparr>)]),
      (Some ''react'', [(Some ''pnp:app1.0.0react16.0.0'',
         \<lparr>packageLocation = ''/cache/react/pnp-app1.0.0react16.0.0/'', packageMainEntry = None,
          packageDependencies = []\<rparr>)])]"

definition peer_after :: PackageInformationStores where
  "peer_after =
     [(Some ''app'', [(Some ''1.0.0'',
         \<lparr>packageLocation = ''/cache/app/'', packageMainEntry = None,
          packageDependencies = []\<rparr>)]),
      (Some ''react'', [(Some ''pnp:app1.0.0react16.0.0'',
         \<lparr>packageLocation = ''/cache/react/pnp-app1.0.0react16.0.0/'', packageMainEntry = None,
          packageDependencies = [(''react-dom'', ''pnp:app1.0.0react-dom16.0.0'')]\<rparr>)]),
      (Some ''react-dom'', [(Some ''pnp:app1.0.0react-dom16.0.0'',
         \<lparr>packageLocation = ''/cache/react-dom/pnp-app1.0.0react-dom16.0.0/'',
          packageMainEntry = None,
          packageDependencies = [(''react'', ''pnp:app1.0.0react16.0.0'')]\<rparr>)])]"

text \<open>
  The example of the specification for peer dependencies: \<open>B\<close> has the peer \<open>P\<close> and is
  required by \<open>A1\<close>, which brings \<open>P\<close> 1.0.0, and by \<open>A2\<close>, which brings \<open>P\<close> 2.0.0.
\<close>

definition virtual_graph :: "(pattern \<times> manifest) list" where
  "virtual_graph =
     [(''A1@1'', package ''A1'' ''1.0.0'' [] ''/cache/A1'' [''B@1'', ''P@1'']),
      (''A2@1'', package ''A2'' ''1.0.0'' [] ''/cache/A2'' [''B@1'', ''P@2'']),
      (''B@1'', package ''B'' ''1.0.0'' [''P''] ''/cache/B'' []),
      (''P@1'', package ''P'' ''1.0.0'' [] ''/cache/P1'' []),
      (''P@2'', package ''P'' ''2.0.0'' [] ''/cache/P2'' [])]"

text \<open>
  \<open>B\<close> with its peer \<open>P\<close> below \<open>C\<close>, which has no peer dependencies and is required
  by both \<open>A1\<close> and \<open>A2\<close>: two ancestry chains lead to \<open>B\<close>.
\<close>

definition shared_parent_graph :: "(pattern \<times> manifest) list" where
  "shared_parent_graph =
     [(''A1@1'', package ''A1'' ''1.0.0'' [] ''/cache/A1'' [''C@1'']),
      (''A2@1'', package ''A2'' ''1.0.0'' [] ''/cache/A2'' [''C@1'']),
      (''C@1'', package ''C'' ''1.0.0'' [] ''/cache/C'' [''B@1'', ''P@1'']),
      (''B@1'', package ''B'' ''1.0.0'' [''P''] ''/cache/B'' []),
      (''P@1'', package ''P'' ''1.0.0'' [] ''/cache/P1'' [])]"

definition shared_parent_stores :: PackageInformationStores where
  "shared_parent_stores =
     [(Some ''A1'', [(Some ''1.0.0'',
         \<lparr>packageLocation = ''/cache/A1/'', packageMainEntry = None,
          packageDependencies = [(''C'', ''1.0.0'')]\<rparr>)]),
      (Some ''C'', [(Some ''1.0.0'',
         \<lparr>packageLocation = ''/cache/C/'', packageMainEntry = None,
          packageDependencies = [(''B'', ''pnp:C1.0.0B1.0.0''), (''P'', ''1.0.0'')]\<rparr>)]),
      (Some ''B'', [(Some ''pnp:C1.0.0B1.0.0'',
         \<lparr>packageLocation = ''/cache/B/pnp-C1.0.0B1.0.0/'', packageMainEntry = None,
          packageDependencies = [(''P'', ''1.0.0'')]\<rparr>)]),
      (Some ''P'', [(Some ''1.0.0'',
         \<lparr>packageLocation = ''/cache/P1/'', packageMainEntry = None,
          packageDependencies = []\<rparr>)]),
      (Some ''A2'', [(Some ''1.0.0'',
         \<lparr>packageLocation = ''/cache/A2/'', packageMainEntry = None,
          packageDependencies = [(''C'', ''1.0.0'')]\<rparr>)]),
      (None, [(None,
         \<lparr>packageLocation = ''/proj/'', packageMainEntry = None,
          packageDependencies = [(''A1'', ''1.0.0''), (''A2'', ''1.0.0'')]\<rparr>)])]"

text \<open>The second loop over the dependencies of \<open>A1\<close> in the peer example of the specification.\<close>

definition virtual_before :: PackageInformationStores where
  "virtual_before =
     [(Some ''A1'', [(Some ''1.0.0'',
         \<lparr>packageLocation = ''/cache/A1/'', packageMainEntry = None,
          packageDependencies = []\<rparr>)])]"

definition virtual_after :: PackageInformationStores where
  "virtual_after =
     [(Some ''A1'', [(Some ''1.0.0'',
         \<lparr>packageLocation = ''/cache/A1/'', packageMainEntry = None,
          packageDependencies = []\<rparr>)]),
      (Some ''B'', [(Some ''pnp:A11.0.0B1.0.0'',
         \<lparr>packageLocation = ''/cache/B/pnp-A11.0.0B1.0.0/'', packageMainEntry = None,
          packageDependencies = [(''P'', ''1.0.0'')]\<rparr>)]),
      (Some ''P'', [(Some ''1.0.0'',
         \<lparr>packageLocation = ''/cache/P1/'', packageMainEntry = None,
          packageDependencies = []\<rparr>)])]"

text \<open>
  The build of the peer example for the seeds \<open>A1\<close> and \<open>A2\<close>: the stores when the
  second loop of the root reaches \<open>A2\<close>, and at its end.
\<close>

definition virtual_mid :: PackageInformationStores where
  "virtual_mid =
     [(Some ''A1'', [(Some ''1.0.0'',
         \<lparr>packageLocation = ''/cache/A1/'', packageMainEntry = None,
          packageDependencies = [(''B'', ''pnp:A11.0.0B1.0.0''), (''P'', ''1.0.0'')]\<rparr>)]),
      (Some ''B'', [(Some ''pnp:A11.0.0B1.0.0'',
         \<lparr>packageLocation = ''/cache/B/pnp-A11.0.0B1.0.0/'', packageMainEntry = None,
          packageDependencies = [(''P'', ''1.0.0'')]\<rparr>)]),
      (Some ''P'', [(Some ''1.0.0'',
         \<lparr>packageLocation = ''/cache/P1/'', packageMainEntry = None,
          packageDependencies = []\<rparr>)])]"

definition virtual_stores :: PackageInformationStores where
  "virtual_stores =
     [(Some ''A1'', [(Some ''1.0.0'',
         \<lparr>packageLocation = ''/cache/A1/'', packageMainEntry = None,
          packageDependencies = [(''B'', ''pnp:A11.0.0B1.0.0''), (''P'', ''1.0.0'')]\<rparr>)]),
      (Some ''B'', [(Some ''pnp:A11.0.0B1.0.0'',
         \<lparr>packageLocation = ''/cache/B/pnp-A11.0.0B1.0.0/'', packageMainEntry = None,
          packageDependencies = [(''P'', ''1.0.0'')]\<rparr>),
        (Some ''pnp:A21.0.0B1.0.0'',
         \<lparr>packageLocation = ''/cache/B/pnp-A21.0.0B1.0.0/'', packageMainEntry = None,
          packageDependencies = [(''P'', ''2.0.0'')]\<rparr>)]),
      (Some ''P'', [(Some ''1.0.0'',
         \<lparr>packageLocation = ''/cache/P1/'', packageMainEntry = None,
          packageDependencies = []\<rparr>),
        (Some ''2.0.0'',
         \<lparr>packageLocation = ''/cache/P2/'', packageMainEntry = None,
          packageDependencies = []\<rparr>)]),
      (Some ''A2'', [(Some ''1.0.0'',
         \<lparr>packageLocation = ''/cache/A2/'', packageMainEntry = None,
          packageDependencies = [(''B'', ''pnp:A21.0.0B1.0.0''), (''P'', ''2.0.0'')]\<rparr>)])]"





text \<open>The pairs of a package name and a reference that have an entry, as a set.\<close>

definition registered :: "PackageInformationStores \<Rightarrow> (string \<times> string) set" where
  "registered stores = {(n, r). store_lookup stores (Some n) (Some r) \<noteq> None}"

text \<open>A cycle of two packages that both have a peer dependency.\<close>

definition peers_cycle_graph :: "(pattern \<times> manifest) list" where
  "peers_cycle_graph =
     [(''A@1'', package ''A'' ''1.0.0'' [''P''] ''/cache/A'' [''B@1'']),
      (''B@1'', package ''B'' ''1.0.0'' [''Q''] ''/cache/B'' [''A@1''])]"

text \<open>Every reference in the stores is shorter than a bound.\<close>

definition references_below :: "nat \<Rightarrow> PackageInformationStores \<Rightarrow> bool" where
  "references_below k stores =
     (\<forall>n r. store_lookup stores (Some n) (Some r) \<noteq> None \<longrightarrow> length r < k)"

text \<open>A package unpacked in a directory whose name holds two dollar signs.\<close>

definition dollar_graph :: "(pattern \<times> manifest) list" where
  "dollar_graph = [(''p@1'', package ''p'' ''1.0.0'' [] ''/a$$b'' [])]"

text \<open>The stores built for it below the project folder \<open>/pro\<close>.\<close>

definition dollar_stores :: PackageInformationStores where
  "dollar_stores =
     [(Some ''p'', [(Some ''1.0.0'',
         \<lparr>packageLocation = ''/a$$b/'', packageMainEntry = None,
          packageDependencies = []\<rparr>)]),
      (None, [(None,
         \<lparr>packageLocation = ''/pro/'', packageMainEntry = None,
          packageDependencies = [(''p'', ''1.0.0'')]\<rparr>)])]"

text \<open>The same stores with the package at \<open>/a$b/\<close>, one character shorter.\<close>

definition shipped_stores :: PackageInformationStores where
  "shipped_stores =
     [(Some ''p'', [(Some ''1.0.0'',
         \<lparr>packageLocation = ''/a$b/'', packageMainEntry = None,
          packageDependencies = []\<rparr>)]),
      (None, [(None,
         \<lparr>packageLocation = ''/pro/'', packageMainEntry = None,
          packageDependencies = [(''p'', ''1.0.0'')]\<rparr>)])]"



section \<open>Properties\<close>

subsection \<open>The template marker\<close>

lemma find_first_SomeD:
  "find_first m s = Some (pre, post) \<Longrightarrow> s = pre @ m @ post"
proof (induction s arbitrary: pre)
  case Nil
  then show ?case by (simp split: if_splits)
next
  case (Cons c cs)
  show ?case
  proof (cases "take (length m) (c # cs) = m")
    case True
    with Cons.prems have "pre = []" "post = drop (length m) (c # cs)" by simp_all
    moreover from True have "c # cs = m @ drop (length m) (c # cs)"
      by (metis append_take_drop_id)
    ultimately show ?thesis by simp
  next
    case False
    with Cons.prems obtain pre' where "find_first m cs = Some (pre', post)" "pre = c # pre'"
      by (auto split: option.splits)
    with Cons.IH show ?thesis by simp
  qed
qed

lemma find_first_complete:
  "find_first m (pre @ m @ post) \<noteq> None"
proof (induction pre)
  case Nil
  have "take (length m) (m @ post) = m" by simp
  then show ?case by (cases "m @ post") (auto split: option.splits)
next
  case (Cons c pre)
  then show ?case by (auto split: option.splits)
qed

lemma find_first_None_iff:
  "find_first m s = None \<longleftrightarrow> (\<nexists>pre post. s = pre @ m @ post)"
proof
  assume "find_first m s = None"
  then show "\<nexists>pre post. s = pre @ m @ post"
    using find_first_complete by metis
next
  assume none: "\<nexists>pre post. s = pre @ m @ post"
  show "find_first m s = None"
  proof (cases "find_first m s")
    case None
    then show ?thesis .
  next
    case (Some r)
    then have "s = fst r @ m @ snd r"
      using find_first_SomeD [of m s "fst r" "snd r"] by simp
    with none show ?thesis by blast
  qed
qed

text \<open>
  C1, as the code has it. \<open>String.prototype.replace\<close> returns its receiver when the
  pattern does not match, and \<open>generatePnpMap\<close> checks nothing: for a template without
  the marker it returns the template itself, unchanged, whenever the stores were
  built, and its only errors are those of the store build.
\<close>

theorem generatePnpMap_without_marker:
  assumes "\<nexists>pre post. pnpApi = pre @ marker @ post"
  shows "(getPackageInformationStores n env lockfileFolder seedPatterns fs = Some (Inr (stores, fs'))
            \<longrightarrow> generatePnpMap n env pnpApi lockfileFolder seedPatterns fs = Some (Inr (pnpApi, fs')))
       \<and> (generatePnpMap n env pnpApi lockfileFolder seedPatterns fs = Some (Inl e)
            \<longleftrightarrow> getPackageInformationStores n env lockfileFolder seedPatterns fs = Some (Inl e))"
proof -
  from assms have "find_first marker pnpApi = None"
    by (simp add: find_first_None_iff)
  then have "string_replace marker r pnpApi = pnpApi" for r
    by (simp add: string_replace_def)
  then show ?thesis
    by (auto simp: generatePnpMap_def split: option.splits sum.splits)
qed

theorem generatePnpMap_without_marker_witness:
  "find_first marker ''exports.setup = null;'' = None
   \<and> generatePnpMap 1 (posix_env []) ''exports.setup = null;'' ''/proj'' [] ()
       = Some (Inr (''exports.setup = null;'', ()))"
proof -
  have none: "find_first marker ''exports.setup = null;'' = None"
    by code_simp
  then have absent: "\<nexists>pre post. ''exports.setup = null;'' = pre @ marker @ post"
    using find_first_None_iff [of marker "''exports.setup = null;''"] by blast
  have built: "getPackageInformationStores 1 (posix_env []) ''/proj'' [] ()
      = Some (Inr ([(None, [(None, \<lparr>packageLocation = ''/proj/'', packageMainEntry = None,
                                      packageDependencies = []\<rparr>)])], ()))"
    by code_simp
  have "generatePnpMap 1 (posix_env []) ''exports.setup = null;'' ''/proj'' [] ()
      = Some (Inr (''exports.setup = null;'', ()))"
    by (rule generatePnpMap_without_marker [OF absent, THEN conjunct1, THEN mp, OF built])
  with none show ?thesis
    by (rule conjI)
qed

text \<open>
  C1 as stated fails: with a template that lacks the marker and the scenario's graph,
  \<open>generatePnpMap\<close> returns normally, and what it returns is the bare template.
\<close>

theorem generatePnpMap_marker_counterexample:
  "find_first marker ''module.exports = {};'' = None
   \<and> generatePnpMap 3 (posix_env scenario_graph) ''module.exports = {};'' ''/proj''
        [''root-dep@^1.0.0''] ()
       = Some (Inr (''module.exports = {};'', ()))"
  by code_simp

subsection \<open>The order of the length tests\<close>

lemma set_first_encounters [simp]: "set (first_encounters xs) = set xs"
  by (induction xs) auto

lemma count_length_keys:
  "map fst (count_length acc n) = (if n \<in> set (map fst acc) then map fst acc else map fst acc @ [n])"
  by (simp add: count_length_def update_keys)

lemma filter_removeAll_other:
  "\<not> P x \<Longrightarrow> filter P (removeAll x ys) = filter P ys"
  by (induction ys) auto

lemma filter_removeAll_conj:
  "filter (\<lambda>n. n \<noteq> x \<and> P n) ys = filter P (removeAll x ys)"
  by (induction ys) auto

lemma foldl_count_length_keys:
  "map fst (foldl count_length acc ns)
     = map fst acc @ filter (\<lambda>n. n \<notin> set (map fst acc)) (first_encounters ns)"
proof (induction ns arbitrary: acc)
  case Nil
  then show ?case by simp
next
  case (Cons x xs)
  show ?case
  proof (cases "x \<in> set (map fst acc)")
    case True
    then have "filter (\<lambda>n. n \<notin> set (map fst acc)) (first_encounters xs)
        = filter (\<lambda>n. n \<notin> set (map fst acc)) (removeAll x (first_encounters xs))"
      by (simp add: filter_removeAll_other)
    with True show ?thesis
      by (simp add: Cons.IH count_length_keys)
  next
    case False
    have "filter (\<lambda>n. n \<notin> set (map fst acc @ [x])) (first_encounters xs)
        = filter (\<lambda>n. n \<notin> set (map fst acc)) (removeAll x (first_encounters xs))"
      using filter_removeAll_conj [of x "\<lambda>n. n \<notin> set (map fst acc)" "first_encounters xs"]
      by (simp add: conj_commute)
    with False show ?thesis
      by (simp add: Cons.IH count_length_keys)
  qed
qed

lemma count_length_lookup:
  "map_of (count_length acc n) k
     = (if k = n then Some ((case map_of acc n of None \<Rightarrow> 0 | Some c \<Rightarrow> c) + 1) else map_of acc k)"
  by (simp add: count_length_def update_conv')

lemma foldl_count_length_lookup:
  "map_of (foldl count_length acc ns) k
     = (if k \<in> set ns then Some ((case map_of acc k of None \<Rightarrow> 0 | Some c \<Rightarrow> c) + count_list ns k)
        else map_of acc k)"
  by (induction ns arbitrary: acc) (auto simp: count_length_lookup)

lemma distinct_first_encounters [simp]: "distinct (first_encounters xs)"
  by (induction xs) (auto simp: distinct_removeAll)

lemma location_lengths_keys:
  "map fst (location_lengths stores) = first_encounters (map length (packageLocations stores))"
  by (simp add: location_lengths_def foldl_count_length_keys)

lemma location_lengths_lookup:
  "map_of (location_lengths stores) k
     = (if k \<in> length ` set (packageLocations stores)
        then Some (count_list (map length (packageLocations stores)) k) else None)"
  by (simp add: location_lengths_def foldl_count_length_lookup)

lemma location_lengths_eq:
  "location_lengths stores
     = map (\<lambda>n. (n, count_list (map length (packageLocations stores)) n))
         (first_encounters (map length (packageLocations stores)))"
proof -
  have d: "distinct (map fst (location_lengths stores))"
    by (simp add: location_lengths_keys)
  have "e = (fst e, count_list (map length (packageLocations stores)) (fst e))"
    if "e \<in> set (location_lengths stores)" for e
  proof -
    from that d have "map_of (location_lengths stores) (fst e) = Some (snd e)"
      by (simp add: map_of_eq_Some_iff)
    then show ?thesis
      by (cases e) (auto simp: location_lengths_lookup split: if_splits)
  qed
  then have "map (\<lambda>e. (fst e, count_list (map length (packageLocations stores)) (fst e)))
      (location_lengths stores) = location_lengths stores"
    by (simp add: map_idI)
  then show ?thesis
    by (metis (no_types, lifting) location_lengths_keys map_map comp_def map_eq_conv)
qed

lemma count_list_map_filter:
  "count_list (map f xs) n = length (filter (\<lambda>x. f x = n) xs)"
  by (induction xs) auto

lemma packageLocations_flat:
  "packageLocations stores = map (\<lambda>i. packageLocation (snd i)) (concat (map snd stores))"
  by (simp add: packageLocations_def map_concat comp_def)

lemma first_encounters_sorted:
  "sorted_wrt (\<lambda>a b. length (takeWhile (\<lambda>m. m \<noteq> a) ls) < length (takeWhile (\<lambda>m. m \<noteq> b) ls))
     (first_encounters ls)"
proof (induction ls)
  case Nil
  then show ?case by simp
next
  case (Cons x xs)
  have "sorted_wrt (\<lambda>a b. length (takeWhile (\<lambda>m. m \<noteq> a) xs) < length (takeWhile (\<lambda>m. m \<noteq> b) xs))
          (filter (\<lambda>m. x \<noteq> m) (first_encounters xs))"
    using Cons.IH by (rule sorted_wrt_filter)
  then have "sorted_wrt (\<lambda>a b. length (takeWhile (\<lambda>m. m \<noteq> a) (x # xs))
                      < length (takeWhile (\<lambda>m. m \<noteq> b) (x # xs)))
          (filter (\<lambda>m. x \<noteq> m) (first_encounters xs))"
    by (rule sorted_wrt_mono_rel [rotated]) auto
  then have "sorted_wrt (\<lambda>a b. length (takeWhile (\<lambda>m. m \<noteq> a) (x # xs))
                      < length (takeWhile (\<lambda>m. m \<noteq> b) (x # xs)))
          (removeAll x (first_encounters xs))"
    by (simp only: removeAll_filter_not_eq)
  then show ?case
    by auto
qed

lemma sorted_wrt_filter_before:
  assumes "sorted_wrt Q (filter p (us @ a # vs @ b # ws))" "p a" "p b"
  shows "Q a b"
  using assms by (simp add: sorted_wrt_append)

lemma stable_sort_key_sorted_wrt:
  fixes f :: "'a \<Rightarrow> int"
  assumes "sorted_wrt Q L"
  shows "sorted_wrt (\<lambda>a b. f a < f b \<or> (f a = f b \<and> Q a b)) (sort_key f L)"
proof -
  let ?S = "sort_key f L"
  have sorted: "sorted (map f ?S)"
    by (rule sorted_sort_key)
  have "f (?S ! i) < f (?S ! j) \<or> (f (?S ! i) = f (?S ! j) \<and> Q (?S ! i) (?S ! j))"
    if ij: "i < j" "j < length ?S" for i j
  proof -
    from sorted ij have le: "f (?S ! i) \<le> f (?S ! j)"
      using sorted_nth_mono [of "map f ?S" i j] by simp
    show ?thesis
    proof (cases "f (?S ! i) = f (?S ! j)")
      case False
      with le show ?thesis by simp
    next
      case True
      let ?c = "f (?S ! i)"
      have "?S = take i ?S @ ?S ! i # drop (Suc i) ?S"
        using ij by (intro id_take_nth_drop) simp
      moreover have "drop (Suc i) ?S = take (j - Suc i) (drop (Suc i) ?S)
            @ (drop (Suc i) ?S) ! (j - Suc i) # drop (Suc (j - Suc i)) (drop (Suc i) ?S)"
        using ij by (intro id_take_nth_drop) simp
      moreover have "(drop (Suc i) ?S) ! (j - Suc i) = ?S ! j"
        using ij by simp
      ultimately obtain us vs ws where S: "?S = us @ ?S ! i # vs @ ?S ! j # ws"
        by metis
      have "filter (\<lambda>e. f e = ?c) ?S = filter (\<lambda>e. f e = ?c) L"
        by (rule sort_key_stable)
      moreover from assms have "sorted_wrt Q (filter (\<lambda>e. f e = ?c) L)"
        by (rule sorted_wrt_filter)
      ultimately have "sorted_wrt Q (filter (\<lambda>e. f e = ?c) (us @ ?S ! i # vs @ ?S ! j # ws))"
        using S by metis
      then have "Q (?S ! i) (?S ! j)"
        by (rule sorted_wrt_filter_before) (simp_all add: True)
      with True show ?thesis by simp
    qed
  qed
  then show ?thesis
    by (simp add: sorted_wrt_iff_nth_less)
qed

lemma decimal_digit: "k < 10 \<Longrightarrow> (of_char (''0123456789'' ! k) :: nat) = 48 + k"
proof -
  assume "k < 10"
  then have "k \<in> {0, 1, 2, 3, 4, 5, 6, 7, 8, 9}"
    by auto
  then show ?thesis
    by auto
qed

lemma decimal_value:
  "foldl (\<lambda>a c. 10 * a + (of_char c - 48)) (0::nat) (decimal n) = n"
proof (induction n rule: decimal.induct)
  case (1 n)
  show ?case
  proof (cases "n < 10")
    case True
    then show ?thesis
      by (subst decimal.simps) (simp add: decimal_digit)
  next
    case False
    with 1 have "foldl (\<lambda>a c. 10 * a + (of_char c - 48)) (0::nat) (decimal (n div 10)) = n div 10"
      by simp
    with False show ?thesis
      by (subst decimal.simps) (simp add: decimal_digit)
  qed
qed

lemma generateLengthTest_text:
  "generateLengthTest
     = (\<lambda>e. [CHR 0x0A] @
          ''  if (location.length >= '' @ decimal (fst e) @
          '' && location['' @ decimal (fst e) @ '' - 1] === path.sep)'' @ [CHR 0x0A] @
          ''    if (match = locatorsByLocations.get(location.substr(0, '' @
          decimal (fst e) @ '')))'' @ [CHR 0x0A] @
          ''      return match;'' @ [CHR 0x0A])"
  by (rule ext) (simp add: generateLengthTest_def nl_def del: decimal.simps)

text \<open>
  C7. The emitted function is the fixed head, one length test per entry of
  \<open>sortedLengths\<close> in that order, and the fixed tail, each test printing its length
  in decimal. The entries are the distinct lengths of the \<open>packageLocation\<close> fields of
  all store entries, each with the number of store entries whose location has that
  length; an entry with a larger count stands before one with a smaller count, and
  of two entries with the same count the one whose length is met first, going through
  the stores in iteration order, stands first.
\<close>

theorem generateFindPackageLocator_order:
  "generateFindPackageLocator stores
     = ''exports.findPackageLocator = function findPackageLocator(location) {'' @ [CHR 0x0A] @
       ''  let match;'' @ [CHR 0x0A] @
       concat (map (\<lambda>e. [CHR 0x0A] @
                 ''  if (location.length >= '' @ decimal (fst e) @
                 '' && location['' @ decimal (fst e) @ '' - 1] === path.sep)'' @ [CHR 0x0A] @
                 ''    if (match = locatorsByLocations.get(location.substr(0, '' @
                 decimal (fst e) @ '')))'' @ [CHR 0x0A] @
                 ''      return match;'' @ [CHR 0x0A])
               (sortedLengths stores)) @
       [CHR 0x0A] @
       ''  return null;'' @ [CHR 0x0A] @
       ''};'' @ [CHR 0x0A]
   \<and> (\<forall>n. foldl (\<lambda>a c. 10 * a + (of_char c - 48)) (0::nat) (decimal n) = n)
   \<and> set (sortedLengths stores)
       = (\<lambda>n. (n, length (filter (\<lambda>i. length (packageLocation (snd i)) = n)
                           (concat (map snd stores)))))
           ` (\<lambda>i. length (packageLocation (snd i))) ` set (concat (map snd stores))
   \<and> distinct (map fst (sortedLengths stores))
   \<and> sorted_wrt
       (\<lambda>a b. snd b < snd a
            \<or> (snd a = snd b
               \<and> length (takeWhile (\<lambda>m. m \<noteq> fst a)
                    (map (\<lambda>i. length (packageLocation (snd i))) (concat (map snd stores))))
                 < length (takeWhile (\<lambda>m. m \<noteq> fst b)
                    (map (\<lambda>i. length (packageLocation (snd i))) (concat (map snd stores))))))
       (sortedLengths stores)"
proof (intro conjI allI)
  let ?ls = "map (\<lambda>i. length (packageLocation (snd i))) (concat (map snd stores))"
  have ls: "map length (packageLocations stores) = ?ls"
    by (simp add: packageLocations_flat comp_def)
  have cnt: "count_list ?ls n
      = length (filter (\<lambda>i. length (packageLocation (snd i)) = n) (concat (map snd stores)))" for n
    by (rule count_list_map_filter)
  have eq: "location_lengths stores
      = map (\<lambda>n. (n, length (filter (\<lambda>i. length (packageLocation (snd i)) = n)
                              (concat (map snd stores)))))
          (first_encounters ?ls)"
    using location_lengths_eq [of stores] unfolding ls cnt .
  show "generateFindPackageLocator stores
     = ''exports.findPackageLocator = function findPackageLocator(location) {'' @ [CHR 0x0A] @
       ''  let match;'' @ [CHR 0x0A] @
       concat (map (\<lambda>e. [CHR 0x0A] @
                 ''  if (location.length >= '' @ decimal (fst e) @
                 '' && location['' @ decimal (fst e) @ '' - 1] === path.sep)'' @ [CHR 0x0A] @
                 ''    if (match = locatorsByLocations.get(location.substr(0, '' @
                 decimal (fst e) @ '')))'' @ [CHR 0x0A] @
                 ''      return match;'' @ [CHR 0x0A])
               (sortedLengths stores)) @
       [CHR 0x0A] @
       ''  return null;'' @ [CHR 0x0A] @
       ''};'' @ [CHR 0x0A]"
    by (simp add: generateFindPackageLocator_def generateLengthTest_text nl_def del: decimal.simps)
  show "foldl (\<lambda>a c. 10 * a + (of_char c - 48)) (0::nat) (decimal n) = n" for n
    by (rule decimal_value)
  show "set (sortedLengths stores)
       = (\<lambda>n. (n, length (filter (\<lambda>i. length (packageLocation (snd i)) = n)
                           (concat (map snd stores)))))
           ` (\<lambda>i. length (packageLocation (snd i))) ` set (concat (map snd stores))"
    by (simp add: sortedLengths_def eq)
  have "distinct (map fst (location_lengths stores))"
    by (simp add: location_lengths_keys)
  moreover have "set (map fst (sortedLengths stores)) = set (map fst (location_lengths stores))"
    by (simp add: sortedLengths_def)
  moreover have "length (map fst (sortedLengths stores)) = length (map fst (location_lengths stores))"
    by (simp add: sortedLengths_def)
  ultimately show "distinct (map fst (sortedLengths stores))"
    by (metis card_distinct distinct_card)
  have "sorted_wrt (\<lambda>a b. length (takeWhile (\<lambda>m. m \<noteq> fst a) ?ls)
                         < length (takeWhile (\<lambda>m. m \<noteq> fst b) ?ls))
          (location_lengths stores)"
    unfolding eq by (simp add: sorted_wrt_map first_encounters_sorted)
  then have "sorted_wrt
      (\<lambda>a b. - int (snd a) < - int (snd b)
           \<or> (- int (snd a) = - int (snd b)
              \<and> length (takeWhile (\<lambda>m. m \<noteq> fst a) ?ls) < length (takeWhile (\<lambda>m. m \<noteq> fst b) ?ls)))
      (sortedLengths stores)"
    unfolding sortedLengths_def by (rule stable_sort_key_sorted_wrt)
  then show "sorted_wrt
       (\<lambda>a b. snd b < snd a
            \<or> (snd a = snd b
               \<and> length (takeWhile (\<lambda>m. m \<noteq> fst a) ?ls) < length (takeWhile (\<lambda>m. m \<noteq> fst b) ?ls)))
       (sortedLengths stores)"
    by simp
qed

subsection \<open>Patterns that resolve to nothing\<close>

lemma getResolverEntry_unresolved:
  assumes "getStrictResolvedPattern env pattern = Some pkg"
    and "pkg_reference pkg = None
         \<or> (\<exists>ref. pkg_reference pkg = Some ref \<and> truthy (ref_location ref) = None)"
  shows "getResolverEntry env pattern = Inr None"
  using assms by (auto simp: getResolverEntry_def)

lemma pass1_skip:
  "getResolverEntry env pattern = Inr None \<Longrightarrow>
   pass1 env pd (front @ pattern # back) res locs fs = pass1 env pd (front @ back) res locs fs"
  by (induction front arbitrary: res locs fs)
     (simp_all add: Let_def split: sum.splits option.splits prod.splits)

lemma pass2_skip:
  "getResolverEntry env pattern = Inr None \<Longrightarrow>
   pass2 n env (front @ pattern # back) res locs stores fs
     = pass2 n env (front @ back) res locs stores fs"
proof (induction front arbitrary: stores fs)
  case Nil
  then show ?case by (simp add: pass2_entry_def)
next
  case (Cons p front)
  then show ?case
    by (simp split: sum.splits iteration.splits option.splits prod.splits)
qed

text \<open>
  C8. A seed pattern whose manifest has no reference object, or a reference object
  without a truthy location, leaves no trace: each pass, and the whole visit, computes
  exactly what it computes on the seed list without that pattern. No error is raised
  for it, and nothing is recorded for it in the resolutions, the locations or the store.
\<close>

theorem visit_skips_unresolved:
  assumes "getStrictResolvedPattern env pattern = Some pkg"
    and "pkg_reference pkg = None
         \<or> (\<exists>ref. pkg_reference pkg = Some ref \<and> truthy (ref_location ref) = None)"
  shows "pass1 env parentData (front @ pattern # back) resolutions locations fs
           = pass1 env parentData (front @ back) resolutions locations fs
       \<and> pass2 n env (front @ pattern # back) resolutions locations stores fs
           = pass2 n env (front @ back) resolutions locations stores fs
       \<and> visit n env (front @ pattern # back) parentData stores fs
           = visit n env (front @ back) parentData stores fs"
proof -
  from assms have skip: "getResolverEntry env pattern = Inr None"
    by (rule getResolverEntry_unresolved)
  have "visit n env (front @ pattern # back) parentData stores fs
           = visit n env (front @ back) parentData stores fs"
    by (cases n)
       (simp_all add: pass1_skip [OF skip] pass2_skip [OF skip]
          split: sum.splits option.splits prod.splits)
  with skip show ?thesis
    by (simp add: pass1_skip pass2_skip)
qed

theorem visit_skips_unresolved_witness:
  "getStrictResolvedPattern (posix_env optional_graph) ''fsevents@1''
     = Some \<lparr>pkg_name = ''fsevents'', pkg_version = ''1.2.4'', pkg_main = None,
              pkg_peerDependencies = [], pkg_reference = None\<rparr>
   \<and> visit 2 (posix_env optional_graph) [''fsevents@1'', ''lib@^2.0.0''] [''app'', ''1.0.0''] [] ()
     = Some (Inr ([(''lib'', ''2.0.0'')],
                  [(Some ''lib'', [(Some ''2.0.0'',
                      \<lparr>packageLocation = ''/cache/lib/'', packageMainEntry = None,
                       packageDependencies = []\<rparr>)])],
                  ()))"
proof -
  let ?pkg = "\<lparr>pkg_name = ''fsevents'', pkg_version = ''1.2.4'', pkg_main = None,
                pkg_peerDependencies = [], pkg_reference = None\<rparr>"
  have resolved: "getStrictResolvedPattern (posix_env optional_graph) ''fsevents@1'' = Some ?pkg"
    by code_simp
  have absent: "pkg_reference ?pkg = None
      \<or> (\<exists>ref. pkg_reference ?pkg = Some ref \<and> truthy (ref_location ref) = None)"
    by simp
  have "visit 2 (posix_env optional_graph) ([] @ ''fsevents@1'' # [''lib@^2.0.0'']) [''app'', ''1.0.0''] [] ()
      = visit 2 (posix_env optional_graph) ([] @ [''lib@^2.0.0'']) [''app'', ''1.0.0''] [] ()"
    by (rule visit_skips_unresolved [OF resolved absent, THEN conjunct2, THEN conjunct2])
  moreover have "visit 2 (posix_env optional_graph) [''lib@^2.0.0''] [''app'', ''1.0.0''] [] ()
     = Some (Inr ([(''lib'', ''2.0.0'')],
                  [(Some ''lib'', [(Some ''2.0.0'',
                      \<lparr>packageLocation = ''/cache/lib/'', packageMainEntry = None,
                       packageDependencies = []\<rparr>)])],
                  ()))"
    by code_simp
  ultimately show ?thesis
    using resolved by simp
qed

subsection \<open>The shape of one iteration\<close>

lemma store_of_unfold:
  "store_of n st = (case map_of st (Some n) of
                      None \<Rightarrow> ([], AList.update (Some n) [] st)
                    | Some s \<Rightarrow> (s, st))"
  by (simp add: store_of_def)

lemma pass2_entry_Continue:
  assumes "pass2_entry env p res locs st = Inr (Continue st1)"
  shows "st1 = st"
  using assms
  by (auto simp: pass2_entry_def store_of_def
      split: sum.splits option.splits prod.splits)

lemma pass2_entry_Recurse:
  assumes "pass2_entry env p res locs st = Inr (Recurse pkg ref r st1)"
  shows "\<exists>loc l. getResolverEntry env p = Inr (Some (pkg, ref, loc))
           \<and> truthy (map_of res (pkg_name pkg)) = Some r
           \<and> truthy (map_of locs (pkg_name pkg)) = Some l
           \<and> store_lookup st (Some (pkg_name pkg)) (Some r) = None
           \<and> st1 = register_information (pkg_name pkg) r (new_information env pkg l) st"
  using assms
  by (auto simp: pass2_entry_def store_of_def store_lookup_def register_information_def
        new_information_def
      split: sum.splits option.splits prod.splits)


lemma visit_Suc_Inr:
  assumes "visit (Suc n) env seeds pd st fs = Some (Inr (res, st', fs'))"
  obtains locs fs1 where "pass1 env pd seeds [] [] fs = Inr (res, locs, fs1)"
    and "pass2 n env seeds res locs st fs1 = Some (Inr (st', fs'))"
  using assms by (auto split: sum.splits option.splits prod.splits)

lemma pass2_Cons_Inr:
  assumes "pass2 n env (p # rest) res locs st fs = Some (Inr (st', fs'))"
  obtains (continue) "pass2_entry env p res locs st = Inr (Continue st)"
      and "pass2 n env rest res locs st fs = Some (Inr (st', fs'))"
  | (recurse) pkg ref r st1 deps st2 fs2
    where "pass2_entry env p res locs st = Inr (Recurse pkg ref r st1)"
      and "visit n env (directDependencies env (pkg_peerDependencies pkg) ref)
             [pkg_name pkg, r] st1 fs = Some (Inr (deps, st2, fs2))"
      and "pass2 n env rest res locs
             (set_packageDependencies (pkg_name pkg) r
                (inject_peers res (pkg_peerDependencies pkg) deps) st2) fs2
           = Some (Inr (st', fs'))"
proof (cases "pass2_entry env p res locs st")
  case (Inl e)
  with assms show ?thesis by simp
next
  case (Inr it)
  show ?thesis
  proof (cases it)
    case (Continue st1)
    with Inr have "st1 = st" by (simp add: pass2_entry_Continue)
    with Inr Continue assms continue show ?thesis by simp
  next
    case (Recurse pkg ref r st1)
    with Inr assms recurse show ?thesis
      by (auto split: option.splits sum.splits prod.splits)
  qed
qed

text \<open>
  A rule for properties \<open>I\<close> of the store that every step of the visit keeps, where the
  steps may rely on a property \<open>G\<close> of what the first pass has computed.
\<close>

lemma visit_pass2_preserve_aux:
  assumes pre: "\<And>pd seeds fs res locs fs1.
      pass1 env pd seeds [] [] fs = Inr (res, locs, fs1) \<Longrightarrow> G res locs"
    and reg: "\<And>st p res locs pkg ref r st1.
      I st \<Longrightarrow> G res locs \<Longrightarrow> pass2_entry env p res locs st = Inr (Recurse pkg ref r st1)
        \<Longrightarrow> I st1"
    and fin: "\<And>st p res locs pkg ref r st1 st2 deps.
      I st \<Longrightarrow> G res locs \<Longrightarrow> pass2_entry env p res locs st = Inr (Recurse pkg ref r st1)
        \<Longrightarrow> I st2 \<Longrightarrow> I (set_packageDependencies (pkg_name pkg) r deps st2)"
  shows "visit n env' seeds pd st fs = Some (Inr (res, st', fs')) \<Longrightarrow> env' = env
           \<Longrightarrow> I st \<Longrightarrow> I st'"
    and "pass2 n env' seeds res locs st fs = Some (Inr (st', fs')) \<Longrightarrow> env' = env
           \<Longrightarrow> G res locs \<Longrightarrow> I st \<Longrightarrow> I st'"
proof (induction n env' seeds pd st fs and n env' seeds res locs st fs
       arbitrary: res st' fs' and st' fs' rule: visit_pass2.induct)
  case (1 env' seedPatterns parentData stores fs)
  then show ?case by simp
next
  case (2 n env' seedPatterns parentData stores fs)
  from "2.prems"(1) obtain locs fs1
    where p1: "pass1 env' parentData seedPatterns [] [] fs = Inr (res, locs, fs1)"
      and p2: "pass2 n env' seedPatterns res locs stores fs1 = Some (Inr (st', fs'))"
    by (rule visit_Suc_Inr)
  from p1 "2.prems"(2) have "G res locs" by (auto intro: pre)
  with "2.IH" p1 p2 "2.prems"(2,3) show ?case by blast
next
  case (3 n env' resolutions locations stores fs)
  then show ?case by simp
next
  case (4 n env' pattern rest resolutions locations stores fs)
  note [simp] = \<open>env' = env\<close>
  note good = \<open>G resolutions locations\<close>
  from "4.prems"(1) show ?case
  proof (cases rule: pass2_Cons_Inr)
    case continue
    with "4.IH"(1) "4.prems"(2,3,4) show ?thesis by blast
  next
    case (recurse pkg ref r st1 deps st2 fs2)
    from "4.prems"(4) good recurse(1) have "I st1" by (auto intro: reg)
    with "4.IH"(2) recurse(1,2) "4.prems"(2) have "I st2" by blast
    with "4.prems"(4) good recurse(1)
    have "I (set_packageDependencies (pkg_name pkg) r
               (inject_peers resolutions (pkg_peerDependencies pkg) deps) st2)"
      by (auto intro: fin)
    with "4.IH"(3) recurse "4.prems"(2) good show ?thesis by blast
  qed
qed

lemma visit_preserve:
  assumes "visit n env seeds pd st fs = Some (Inr (res, st', fs'))" and "I st"
    and "\<And>pd seeds fs res locs fs1.
      pass1 env pd seeds [] [] fs = Inr (res, locs, fs1) \<Longrightarrow> G res locs"
    and "\<And>st p res locs pkg ref r st1.
      I st \<Longrightarrow> G res locs \<Longrightarrow> pass2_entry env p res locs st = Inr (Recurse pkg ref r st1)
        \<Longrightarrow> I st1"
    and "\<And>st p res locs pkg ref r st1 st2 deps.
      I st \<Longrightarrow> G res locs \<Longrightarrow> pass2_entry env p res locs st = Inr (Recurse pkg ref r st1)
        \<Longrightarrow> I st2 \<Longrightarrow> I (set_packageDependencies (pkg_name pkg) r deps st2)"
  shows "I st'"
  by (rule visit_pass2_preserve_aux(1)
        [of env G I, OF assms(3) assms(4) assms(5) assms(1) refl assms(2)])

lemma pass2_preserve:
  assumes "pass2 n env seeds res locs st fs = Some (Inr (st', fs'))" and "I st" and "G res locs"
    and "\<And>pd seeds fs res locs fs1.
      pass1 env pd seeds [] [] fs = Inr (res, locs, fs1) \<Longrightarrow> G res locs"
    and "\<And>st p res locs pkg ref r st1.
      I st \<Longrightarrow> G res locs \<Longrightarrow> pass2_entry env p res locs st = Inr (Recurse pkg ref r st1)
        \<Longrightarrow> I st1"
    and "\<And>st p res locs pkg ref r st1 st2 deps.
      I st \<Longrightarrow> G res locs \<Longrightarrow> pass2_entry env p res locs st = Inr (Recurse pkg ref r st1)
        \<Longrightarrow> I st2 \<Longrightarrow> I (set_packageDependencies (pkg_name pkg) r deps st2)"
  shows "I st'"
  by (rule visit_pass2_preserve_aux(2)
        [of env G I, OF assms(4) assms(5) assms(6) assms(1) refl assms(3) assms(2)])

subsection \<open>Stored locations\<close>

lemma pass1_Cons_Inr:
  assumes "pass1 env pd (p # seeds) res0 locs0 fs = Inr (res, locs, fs1)"
  obtains (skip) "getResolverEntry env p = Inr None"
      and "pass1 env pd seeds res0 locs0 fs = Inr (res, locs, fs1)"
  | (resolved) pkg ref loc fs2
    where "getResolverEntry env p = Inr (Some (pkg, ref, loc))"
      and "pass1 env pd seeds
             (AList.update (pkg_name pkg) (reference_of env pd pkg) res0)
             (AList.update (pkg_name pkg) (location_of env pd pkg loc) locs0) fs2
           = Inr (res, locs, fs1)"
proof (cases "getResolverEntry env p")
  case (Inl e)
  with assms show ?thesis by simp
next
  case (Inr entry)
  show ?thesis
  proof (cases entry)
    case None
    with Inr assms skip show ?thesis by simp
  next
    case (Some t)
    obtain pkg ref loc where t: "t = (pkg, ref, loc)"
      by (cases t)
    show ?thesis
    proof (cases "pkg_peerDependencies pkg = []")
      case True
      with assms Inr Some t
      have "pass1 env pd seeds
             (AList.update (pkg_name pkg) (reference_of env pd pkg) res0)
             (AList.update (pkg_name pkg) (location_of env pd pkg loc) locs0) fs
           = Inr (res, locs, fs1)"
        by (simp add: reference_of_def location_of_def Let_def)
      with Inr Some t resolved show ?thesis by simp
    next
      case False
      show ?thesis
      proof (cases "fs_symlink env fs loc (location_of env pd pkg loc)")
        case None
        with assms Inr Some t False show ?thesis
          by (simp add: location_of_def Let_def)
      next
        case (Some fs2)
        with assms Inr \<open>entry = Some t\<close> t False
        have "pass1 env pd seeds
             (AList.update (pkg_name pkg) (reference_of env pd pkg) res0)
             (AList.update (pkg_name pkg) (location_of env pd pkg loc) locs0) fs2
           = Inr (res, locs, fs1)"
          by (simp add: reference_of_def location_of_def Let_def)
        with Inr \<open>entry = Some t\<close> t resolved show ?thesis by simp
      qed
    qed
  qed
qed

lemma replace_trailing_sep_ends: "ends_with_sep sep (replace_trailing_sep sep loc)"
  by (simp add: replace_trailing_sep_def ends_with_sep_def)

lemma replace_trailing_sep_tidy:
  "one_trailing_sep sep (replace_trailing_sep sep loc) \<longleftrightarrow> tidy sep loc"
  by (auto simp: replace_trailing_sep_def one_trailing_sep_def tidy_def ends_with_sep_def)

lemma packageLocations_update:
  "set (packageLocations (AList.update k v st))
     \<subseteq> (\<lambda>i. packageLocation (snd i)) ` set v \<union> set (packageLocations st)"
  by (induction st) (auto simp: packageLocations_def)

lemma set_update_subset: "set (AList.update k v al) \<subseteq> insert (k, v) (set al)"
  by (induction al) auto

lemma packageLocations_store:
  "map_of st k = Some s \<Longrightarrow> (r, i) \<in> set s \<Longrightarrow> packageLocation i \<in> set (packageLocations st)"
  by (force simp: packageLocations_def dest: map_of_SomeD)

lemma packageLocations_register:
  "set (packageLocations (register_information n r info st))
     \<subseteq> insert (packageLocation info) (set (packageLocations st))"
proof -
  let ?s = "case map_of st (Some n) of None \<Rightarrow> [] | Some s \<Rightarrow> s"
  have "packageLocation (snd e) \<in> insert (packageLocation info) (set (packageLocations st))"
    if "e \<in> set (AList.update (Some r) info ?s)" for e
  proof -
    from that set_update_subset [of "Some r" info ?s]
    consider "e = (Some r, info)" | "e \<in> set ?s" by blast
    then show ?thesis
    proof cases
      case 1
      then show ?thesis by simp
    next
      case 2
      then obtain s where "map_of st (Some n) = Some s" "e \<in> set s"
        by (cases "map_of st (Some n)") auto
      then have "packageLocation (snd e) \<in> set (packageLocations st)"
        using packageLocations_store [of st "Some n" s "fst e" "snd e"] by simp
      then show ?thesis by simp
    qed
  qed
  then have "(\<lambda>i. packageLocation (snd i)) ` set (AList.update (Some r) info ?s)
      \<subseteq> insert (packageLocation info) (set (packageLocations st))"
    by blast
  with packageLocations_update [of "Some n" "AList.update (Some r) info ?s" st]
  show ?thesis
    unfolding register_information_def by blast
qed

lemma map_entry_packageLocation:
  "map (\<lambda>i. packageLocation (snd i))
       (AList.map_entry r (\<lambda>info. info\<lparr>packageDependencies := deps\<rparr>) s)
     = map (\<lambda>i. packageLocation (snd i)) s"
  by (induction s) auto

lemma packageLocations_set_packageDependencies:
  "packageLocations (set_packageDependencies n r deps st) = packageLocations st"
  unfolding set_packageDependencies_def packageLocations_def
  by (induction st) (auto simp: map_entry_packageLocation)

lemma update_values: "snd ` set (AList.update k v al) \<subseteq> insert v (snd ` set al)"
  using set_update_subset [of k v al] by force

lemma pass1_locations:
  assumes "pass1 env pd seeds res0 locs0 fs = Inr (res, locs, fs1)"
    and "\<forall>l \<in> snd ` set locs0. Q l"
    and "\<And>p pkg ref loc. getResolverEntry env p = Inr (Some (pkg, ref, loc))
           \<Longrightarrow> Q (location_of env pd pkg loc)"
  shows "\<forall>l \<in> snd ` set locs. Q l"
  using assms(1,2)
proof (induction seeds arbitrary: res0 locs0 fs)
  case Nil
  then show ?case by simp
next
  case (Cons p seeds)
  from Cons.prems(1) show ?case
  proof (cases rule: pass1_Cons_Inr)
    case skip
    then show ?thesis using Cons.IH Cons.prems(2) by blast
  next
    case (resolved pkg ref loc fs2)
    from resolved(1) have new: "Q (location_of env pd pkg loc)"
      by (rule assms(3))
    have "\<forall>l \<in> snd ` set (AList.update (pkg_name pkg) (location_of env pd pkg loc) locs0). Q l"
    proof
      fix l
      assume "l \<in> snd ` set (AList.update (pkg_name pkg) (location_of env pd pkg loc) locs0)"
      with update_values [of "pkg_name pkg" "location_of env pd pkg loc" locs0]
      have "l = location_of env pd pkg loc \<or> l \<in> snd ` set locs0"
        by (meson insertE subsetD)
      with new Cons.prems(2) show "Q l"
        by (metis (no_types))
    qed
    with resolved(2) show ?thesis by (rule Cons.IH)
  qed
qed

lemma visit_locations:
  assumes run: "visit n env seeds pd st fs = Some (Inr (res, st', fs'))"
    and start: "\<forall>l \<in> set (packageLocations st). P l"
    and norm: "\<And>l. Q l \<Longrightarrow> P (replace_trailing_sep (path_sep env) l)"
    and recorded: "\<And>p pkg ref loc pd. getResolverEntry env p = Inr (Some (pkg, ref, loc))
           \<Longrightarrow> Q (location_of env pd pkg loc)"
  shows "\<forall>l \<in> set (packageLocations st'). P l"
proof (rule visit_preserve [of _ _ _ _ _ _ _ _ _ "\<lambda>st. \<forall>l \<in> set (packageLocations st). P l"
      "\<lambda>res locs. \<forall>l \<in> snd ` set locs. Q l", OF run start])
  fix pd seeds fs res locs fs1
  assume "pass1 env pd seeds [] [] fs = Inr (res, locs, fs1)"
  then show "\<forall>l \<in> snd ` set locs. Q l"
    by (rule pass1_locations) (simp_all add: recorded)
next
  fix st p res locs pkg ref r st1
  assume inv: "\<forall>l \<in> set (packageLocations st). P l"
    and good: "\<forall>l \<in> snd ` set locs. Q l"
    and "pass2_entry env p res locs st = Inr (Recurse pkg ref r st1)"
  then obtain l where l: "truthy (map_of locs (pkg_name pkg)) = Some l"
    and st1: "st1 = register_information (pkg_name pkg) r (new_information env pkg l) st"
    by (blast dest: pass2_entry_Recurse)
  from l have "(pkg_name pkg, l) \<in> set locs"
    by (auto simp: truthy_def split: option.splits if_splits dest: map_of_SomeD)
  with good have "Q l" by force
  then have "P (packageLocation (new_information env pkg l))"
    by (simp add: new_information_def norm)
  with inv packageLocations_register [of "pkg_name pkg" r "new_information env pkg l" st]
  show "\<forall>l \<in> set (packageLocations st1). P l"
    unfolding st1 by blast
next
  fix st2 :: PackageInformationStores and pkg r deps
  assume "\<forall>l \<in> set (packageLocations st2). P l"
  then show "\<forall>l \<in> set (packageLocations (set_packageDependencies (pkg_name pkg) r deps st2)). P l"
    by (simp add: packageLocations_set_packageDependencies)
qed

lemma getPackageInformationStores_locations:
  assumes run: "getPackageInformationStores n env lockfileFolder seeds fs = Some (Inr (stores, fs'))"
    and norm: "\<And>l. Q l \<Longrightarrow> P (replace_trailing_sep (path_sep env) l)"
    and recorded: "\<And>p pkg ref loc pd. getResolverEntry env p = Inr (Some (pkg, ref, loc))
           \<Longrightarrow> Q (location_of env pd pkg loc)"
    and root: "\<And>root. fs_realpath env fs lockfileFolder = Some root \<Longrightarrow> Q root"
  shows "\<forall>l \<in> set (packageLocations stores). P l"
proof -
  from run obtain root deps st where root_eq: "fs_realpath env fs lockfileFolder = Some root"
    and v: "visit n env seeds [] [] fs = Some (Inr (deps, st, fs'))"
    and stores: "stores = AList.update None
        [(None, \<lparr>packageLocation = replace_trailing_sep (path_sep env) root,
                 packageMainEntry = None, packageDependencies = deps\<rparr>)] st"
    by (auto simp: getPackageInformationStores_def split: option.splits sum.splits prod.splits)
  have "\<forall>l \<in> set (packageLocations []). P l"
    by (simp add: packageLocations_def)
  with v have "\<forall>l \<in> set (packageLocations st). P l"
    by (rule visit_locations [where P = P and Q = Q]) (simp_all add: norm recorded)
  moreover from root_eq have "P (replace_trailing_sep (path_sep env) root)"
    by (intro norm root)
  ultimately show ?thesis
    unfolding stores
    using packageLocations_update [of None "[(None, \<lparr>packageLocation = replace_trailing_sep (path_sep env) root,
                 packageMainEntry = None, packageDependencies = deps\<rparr>)]" st]
    by auto
qed

text \<open>
  C9, as the code has it. Every stored \<open>packageLocation\<close>, the root's included, ends
  with the platform separator. The normalization takes away at most one final slash or
  backslash before it appends the separator, so its result ends with exactly one
  separator precisely for a tidy location; when every location the first pass records
  and the canonical path of the lockfile folder are tidy, every stored location ends
  with exactly one separator.
\<close>

theorem packageLocation_ends_with_separator:
  assumes "getPackageInformationStores n env lockfileFolder seedPatterns fs = Some (Inr (stores, fs'))"
  shows "(\<forall>l \<in> set (packageLocations stores). ends_with_sep (path_sep env) l)
       \<and> (one_trailing_sep (path_sep env) (replace_trailing_sep (path_sep env) loc)
            \<longleftrightarrow> tidy (path_sep env) loc)
       \<and> ((\<forall>p pkg ref loc pd. getResolverEntry env p = Inr (Some (pkg, ref, loc))
                \<longrightarrow> tidy (path_sep env) (location_of env pd pkg loc))
            \<and> (\<forall>root. fs_realpath env fs lockfileFolder = Some root \<longrightarrow> tidy (path_sep env) root)
          \<longrightarrow> (\<forall>l \<in> set (packageLocations stores). one_trailing_sep (path_sep env) l))"
proof (intro conjI impI)
  show "\<forall>l \<in> set (packageLocations stores). ends_with_sep (path_sep env) l"
    by (rule getPackageInformationStores_locations [OF assms, where Q = "\<lambda>_. True"])
       (simp_all add: replace_trailing_sep_ends)
  show "one_trailing_sep (path_sep env) (replace_trailing_sep (path_sep env) loc)
            \<longleftrightarrow> tidy (path_sep env) loc"
    by (rule replace_trailing_sep_tidy)
  assume tidy: "(\<forall>p pkg ref loc pd. getResolverEntry env p = Inr (Some (pkg, ref, loc))
                \<longrightarrow> tidy (path_sep env) (location_of env pd pkg loc))
            \<and> (\<forall>root. fs_realpath env fs lockfileFolder = Some root \<longrightarrow> tidy (path_sep env) root)"
  show "\<forall>l \<in> set (packageLocations stores). one_trailing_sep (path_sep env) l"
    by (rule getPackageInformationStores_locations [OF assms, where Q = "tidy (path_sep env)"])
       (use tidy in \<open>simp_all add: replace_trailing_sep_tidy\<close>)
qed

lemma scenario_run:
  "getPackageInformationStores 3 (posix_env scenario_graph) ''/proj'' [''root-dep@^1.0.0''] ()
     = Some (Inr (scenario_stores, ()))"
  by code_simp

lemma scenario_resolver:
  assumes "getResolverEntry (posix_env scenario_graph) p = Inr (Some (pkg, ref, loc))"
  shows "(p = ''root-dep@^1.0.0'' \<and> pkg = package ''root-dep'' ''1.0.0'' [] ''/cache/root-dep'' [''lib@^2.0.0'']
            \<and> loc = ''/cache/root-dep'')
       \<or> (p = ''lib@^2.0.0'' \<and> pkg = package ''lib'' ''2.0.0'' [] ''/cache/lib'' []
            \<and> loc = ''/cache/lib'')"
  using assms
  by (auto simp: getResolverEntry_def posix_env_def scenario_graph_def package_def truthy_def
      split: if_splits option.splits)

theorem packageLocation_ends_with_separator_witness:
  "getPackageInformationStores 3 (posix_env scenario_graph) ''/proj'' [''root-dep@^1.0.0''] ()
     = Some (Inr (scenario_stores, ()))
   \<and> packageLocations scenario_stores = [''/cache/root-dep/'', ''/cache/lib/'', ''/proj/'']
   \<and> one_trailing_sep (CHR ''/'') ''/cache/root-dep/''
   \<and> one_trailing_sep (CHR ''/'') ''/cache/lib/''
   \<and> one_trailing_sep (CHR ''/'') ''/proj/''"
proof -
  let ?env = "posix_env scenario_graph"
  have sep: "path_sep ?env = CHR ''/''"
    by (simp add: posix_env_def)
  have locs: "packageLocations scenario_stores = [''/cache/root-dep/'', ''/cache/lib/'', ''/proj/'']"
    by code_simp
  have tidy_locs: "tidy (CHR ''/'') ''/cache/root-dep''" "tidy (CHR ''/'') ''/cache/lib''"
      "tidy (CHR ''/'') ''/proj''"
    by code_simp+
  have "\<forall>p pkg ref loc pd. getResolverEntry ?env p = Inr (Some (pkg, ref, loc))
          \<longrightarrow> tidy (path_sep ?env) (location_of ?env pd pkg loc)"
    using tidy_locs(1,2)
    by (auto dest!: scenario_resolver simp: sep location_of_def package_def)
  moreover have "\<forall>root. fs_realpath ?env () ''/proj'' = Some root \<longrightarrow> tidy (path_sep ?env) root"
    using tidy_locs(3) by (simp add: posix_env_def)
  ultimately have "\<forall>l \<in> set (packageLocations scenario_stores). one_trailing_sep (path_sep ?env) l"
    using packageLocation_ends_with_separator [OF scenario_run] by blast
  with locs sep scenario_run show ?thesis
    by simp
qed

text \<open>
  C9 as stated fails: a location that the resolver reports with two trailing slashes is
  stored with both of them.
\<close>

theorem packageLocation_separator_counterexample:
  "getPackageInformationStores 2 (posix_env untidy_graph) ''/proj'' [''lib@^2.0.0''] ()
     = Some (Inr ([(Some ''lib'', [(Some ''2.0.0'',
                      \<lparr>packageLocation = ''/cache/lib//'', packageMainEntry = None,
                       packageDependencies = []\<rparr>)]),
                   (None, [(None,
                      \<lparr>packageLocation = ''/proj/'', packageMainEntry = None,
                       packageDependencies = [(''lib'', ''2.0.0'')]\<rparr>)])], ()))
   \<and> \<not> one_trailing_sep (CHR ''/'') ''/cache/lib//''"
  by code_simp

subsection \<open>What the first pass records\<close>

lemma update_lookup_keeps: "map_of al k \<noteq> None \<Longrightarrow> map_of (AList.update k' v al) k \<noteq> None"
  by (simp add: update_conv')

lemma pass1_keeps_keys:
  assumes "pass1 env pd seeds res0 locs0 fs = Inr (res, locs, fs1)"
  shows "(map_of res0 k \<noteq> None \<longrightarrow> map_of res k \<noteq> None)
       \<and> (map_of locs0 k \<noteq> None \<longrightarrow> map_of locs k \<noteq> None)"
  using assms
proof (induction seeds arbitrary: res0 locs0 fs)
  case Nil
  then show ?case by simp
next
  case (Cons p seeds)
  from Cons.prems show ?case
  proof (cases rule: pass1_Cons_Inr)
    case skip
    from skip(2) show ?thesis by (rule Cons.IH)
  next
    case (resolved pkg ref loc fs2)
    from Cons.IH [OF resolved(2)] show ?thesis
      by (simp add: update_conv')
  qed
qed

lemma pass1_records:
  assumes "pass1 env pd seeds res0 locs0 fs = Inr (res, locs, fs1)"
    and "p \<in> set seeds" and "getResolverEntry env p = Inr (Some (pkg, ref, loc))"
  shows "map_of res (pkg_name pkg) \<noteq> None \<and> map_of locs (pkg_name pkg) \<noteq> None"
  using assms(1,2)
proof (induction seeds arbitrary: res0 locs0 fs)
  case Nil
  then show ?case by simp
next
  case (Cons q seeds)
  from Cons.prems(1) show ?case
  proof (cases rule: pass1_Cons_Inr)
    case skip
    with Cons.prems(2) assms(3) have "p \<in> set seeds" by auto
    with skip(2) show ?thesis by (rule Cons.IH)
  next
    case (resolved pkg' ref' loc' fs2)
    show ?thesis
    proof (cases "p = q")
      case True
      with resolved(1) assms(3) have "pkg' = pkg" by simp
      with pass1_keeps_keys [OF resolved(2), of "pkg_name pkg"] show ?thesis
        by (simp add: update_conv')
    next
      case False
      with Cons.prems(2) have "p \<in> set seeds" by simp
      with resolved(2) show ?thesis by (rule Cons.IH)
    qed
  qed
qed

lemma pass1_resolutions:
  assumes "pass1 env pd seeds res0 locs0 fs = Inr (res, locs, fs1)"
    and "map_of res k = Some r"
  shows "map_of res0 k = Some r
       \<or> (\<exists>p \<in> set seeds. \<exists>pkg ref loc. getResolverEntry env p = Inr (Some (pkg, ref, loc))
             \<and> pkg_name pkg = k \<and> r = reference_of env pd pkg)"
  using assms
proof (induction seeds arbitrary: res0 locs0 fs)
  case Nil
  then show ?case by simp
next
  case (Cons q seeds)
  from Cons.prems(1) show ?case
  proof (cases rule: pass1_Cons_Inr)
    case skip
    from Cons.IH [OF skip(2) Cons.prems(2)] show ?thesis by auto
  next
    case (resolved pkg ref loc fs2)
    from Cons.IH [OF resolved(2) Cons.prems(2)] resolved(1) show ?thesis
      by (auto simp: update_conv' split: if_splits)
  qed
qed

lemma pass1_locations_of:
  assumes "pass1 env pd seeds res0 locs0 fs = Inr (res, locs, fs1)"
    and "map_of locs k = Some l"
  shows "map_of locs0 k = Some l
       \<or> (\<exists>p \<in> set seeds. \<exists>pkg ref loc. getResolverEntry env p = Inr (Some (pkg, ref, loc))
             \<and> pkg_name pkg = k \<and> l = location_of env pd pkg loc)"
  using assms
proof (induction seeds arbitrary: res0 locs0 fs)
  case Nil
  then show ?case by simp
next
  case (Cons q seeds)
  from Cons.prems(1) show ?case
  proof (cases rule: pass1_Cons_Inr)
    case skip
    from Cons.IH [OF skip(2) Cons.prems(2)] show ?thesis by auto
  next
    case (resolved pkg ref loc fs2)
    from Cons.IH [OF resolved(2) Cons.prems(2)] resolved(1) show ?thesis
      by (auto simp: update_conv' split: if_splits)
  qed
qed

lemma getResolverEntry_location:
  "getResolverEntry env p = Inr (Some (pkg, ref, loc)) \<Longrightarrow> loc \<noteq> []"
  by (auto simp: getResolverEntry_def truthy_def split: option.splits if_splits)

lemma getResolverEntry_Inl:
  "getResolverEntry env p = Inl e \<Longrightarrow> e = TypeError"
  by (auto simp: getResolverEntry_def split: option.splits)

lemma getResolverEntry_resolved:
  "getResolverEntry env p = Inr (Some (pkg, ref, loc))
     \<Longrightarrow> getStrictResolvedPattern env p = Some pkg \<and> pkg_reference pkg = Some ref"
  by (auto simp: getResolverEntry_def split: option.splits)

lemma pass1_Inl:
  "pass1 env pd seeds res0 locs0 fs = Inl e \<Longrightarrow> e = TypeError \<or> e = SymlinkError"
proof (induction seeds arbitrary: res0 locs0 fs)
  case Nil
  then show ?case by simp
next
  case (Cons p seeds)
  show ?case
  proof (cases "getResolverEntry env p")
    case (Inl e')
    with Cons.prems show ?thesis by (auto dest: getResolverEntry_Inl)
  next
    case (Inr entry)
    with Cons show ?thesis
      by (cases entry) (auto simp: Let_def split: if_splits option.splits)
  qed
qed

lemma pass1_truthy:
  assumes run: "pass1 env pd seeds [] [] fs = Inr (res, locs, fs1)"
    and versions: "\<And>p pkg. getStrictResolvedPattern env p = Some pkg \<Longrightarrow> pkg_version pkg \<noteq> []"
    and computed: "\<And>d f. path_resolve env d f \<noteq> []"
    and p: "p \<in> set seeds" "getResolverEntry env p = Inr (Some (pkg, ref, loc))"
  shows "truthy (map_of res (pkg_name pkg)) \<noteq> None \<and> truthy (map_of locs (pkg_name pkg)) \<noteq> None"
proof -
  from pass1_records [OF run p] obtain r l
    where r: "map_of res (pkg_name pkg) = Some r" and l: "map_of locs (pkg_name pkg) = Some l"
    by auto
  from pass1_resolutions [OF run r] obtain q pkg' ref' loc'
    where "getResolverEntry env q = Inr (Some (pkg', ref', loc'))" "r = reference_of env pd pkg'"
    by auto
  then have "r \<noteq> []"
    using versions [of q pkg'] by (auto simp: reference_of_def dest: getResolverEntry_resolved)
  moreover from pass1_locations_of [OF run l] obtain q pkg' ref' loc'
    where "getResolverEntry env q = Inr (Some (pkg', ref', loc'))" "l = location_of env pd pkg' loc'"
    by auto
  then have "l \<noteq> []"
    using computed by (auto simp: location_of_def dest: getResolverEntry_location)
  ultimately show ?thesis
    using r l by (simp add: truthy_def)
qed

lemma pass2_entry_Inl:
  assumes "pass2_entry env p res locs st = Inl e"
  shows "e = TypeError
       \<or> (\<exists>pkg ref loc. getResolverEntry env p = Inr (Some (pkg, ref, loc))
            \<and> (truthy (map_of res (pkg_name pkg)) = None
                \<or> truthy (map_of locs (pkg_name pkg)) = None))"
  using assms
  by (auto simp: pass2_entry_def dest: getResolverEntry_Inl
      split: sum.splits option.splits prod.splits)

lemma no_invariant_failure_aux:
  assumes versions: "\<And>p pkg. getStrictResolvedPattern env p = Some pkg \<Longrightarrow> pkg_version pkg \<noteq> []"
    and computed: "\<And>d f. path_resolve env d f \<noteq> []"
  shows "env' = env \<Longrightarrow> visit n env' seeds pd st fs = Some (Inl e) \<Longrightarrow> \<not> invariant_failure e"
    and "env' = env \<Longrightarrow> pass2 n env' seeds res locs st fs = Some (Inl e)
           \<Longrightarrow> (\<And>p pkg ref loc. p \<in> set seeds \<Longrightarrow> getResolverEntry env p = Inr (Some (pkg, ref, loc))
                 \<Longrightarrow> truthy (map_of res (pkg_name pkg)) \<noteq> None
                     \<and> truthy (map_of locs (pkg_name pkg)) \<noteq> None)
           \<Longrightarrow> \<not> invariant_failure e"
proof (induction n env' seeds pd st fs and n env' seeds res locs st fs
       rule: visit_pass2.induct)
  case (1 env' seedPatterns parentData stores fs)
  then show ?case by simp
next
  case (2 n env' seedPatterns parentData stores fs)
  note env = \<open>env' = env\<close>
  show ?case
  proof (cases "pass1 env' parentData seedPatterns [] [] fs")
    case (Inl e')
    with "2.prems"(2) have "e = e'" by simp
    with Inl have "e = SymlinkError \<or> e = TypeError"
      by (auto dest: pass1_Inl)
    then show ?thesis by (auto simp: invariant_failure_def)
  next
    case (Inr t)
    obtain res locs fs1 where t: "t = (res, locs, fs1)" by (cases t)
    with Inr have p1: "pass1 env' parentData seedPatterns [] [] fs = Inr (res, locs, fs1)"
      by simp
    with "2.prems"(2) have p2: "pass2 n env' seedPatterns res locs stores fs1 = Some (Inl e)"
      by (simp split: option.splits sum.splits prod.splits)
    have good: "truthy (map_of res (pkg_name pkg)) \<noteq> None
                     \<and> truthy (map_of locs (pkg_name pkg)) \<noteq> None"
      if "p \<in> set seedPatterns" "getResolverEntry env p = Inr (Some (pkg, ref, loc))"
      for p pkg ref loc
      by (rule pass1_truthy [OF p1 [unfolded env] versions computed that])
    show ?thesis
      by (rule "2.IH" [OF p1 refl refl env p2 good])
  qed
next
  case (3 n env' resolutions locations stores fs)
  then show ?case by simp
next
  case (4 n env' pattern rest resolutions locations stores fs)
  note env = \<open>env' = env\<close>
  note good = "4.prems"(3)
  have good_rest: "truthy (map_of resolutions (pkg_name pkg)) \<noteq> None
                     \<and> truthy (map_of locations (pkg_name pkg)) \<noteq> None"
    if "p \<in> set rest" "getResolverEntry env p = Inr (Some (pkg, ref, loc))" for p pkg ref loc
    using that(1) by (intro good [OF _ that(2)]) simp
  show ?case
  proof (cases "pass2_entry env' pattern resolutions locations stores")
    case (Inl e')
    with "4.prems"(2) have "e' = e" by simp
    with Inl env have "pass2_entry env pattern resolutions locations stores = Inl e"
      by simp
    from pass2_entry_Inl [OF this] good [of pattern] have "e = TypeError"
      by auto
    then show ?thesis by (simp add: invariant_failure_def)
  next
    case (Inr it)
    show ?thesis
    proof (cases it)
      case (Continue st1)
      with Inr "4.prems"(2) have "pass2 n env' rest resolutions locations st1 fs = Some (Inl e)"
        by simp
      then show ?thesis
        by (rule "4.IH"(1) [OF Inr Continue env _ good_rest])
    next
      case (Recurse pkg ref r st1)
      let ?v = "visit n env' (directDependencies env' (pkg_peerDependencies pkg) ref)
                  [pkg_name pkg, r] st1 fs"
      show ?thesis
      proof (cases ?v)
        case None
        with Inr Recurse "4.prems"(2) show ?thesis by simp
      next
        case (Some out)
        show ?thesis
        proof (cases out)
          case (Inl e')
          with Some Inr Recurse "4.prems"(2) have "e' = e" by simp
          with Some Inl have "?v = Some (Inl e)" by simp
          then show ?thesis
            by (rule "4.IH"(2) [OF Inr Recurse env])
        next
          case inr: (Inr t)
          obtain deps st2 fs2 where t: "t = (deps, st2, fs2)" by (cases t)
          with Some inr Inr Recurse "4.prems"(2)
          have "pass2 n env' rest resolutions locations
                  (set_packageDependencies (pkg_name pkg) r
                     (inject_peers resolutions (pkg_peerDependencies pkg) deps) st2) fs2
                = Some (Inl e)"
            by simp
          moreover from inr t have "out = Inr (deps, st2, fs2)" by simp
          ultimately show ?thesis
            by (intro "4.IH"(3) [OF Inr Recurse Some _ refl refl env _ good_rest])
        qed
      qed
    qed
  qed
qed

text \<open>
  C10. The resolver is a function of the pattern here, so both passes see the same
  manifest. When every manifest has a non-empty version and \<open>path.resolve\<close> never
  returns the empty string, the first pass leaves a truthy reference and a truthy
  location under the name of every seed pattern that has a resolver entry, and neither
  \<open>visit\<close> nor the store build can end in one of the two invariant failures.
\<close>

theorem invariant_failures_unreachable:
  assumes "\<forall>p pkg. getStrictResolvedPattern env p = Some pkg \<longrightarrow> pkg_version pkg \<noteq> []"
    and "\<forall>d f. path_resolve env d f \<noteq> []"
  shows "(pass1 env parentData seedPatterns [] [] fs = Inr (resolutions, locations, fs1) \<longrightarrow>
            (\<forall>p \<in> set seedPatterns. \<forall>pkg ref loc.
                getResolverEntry env p = Inr (Some (pkg, ref, loc)) \<longrightarrow>
                  truthy (map_of resolutions (pkg_name pkg)) \<noteq> None
                \<and> truthy (map_of locations (pkg_name pkg)) \<noteq> None))
       \<and> visit n env seedPatterns parentData stores fs \<noteq> Some (Inl ReferenceNotComputed)
       \<and> visit n env seedPatterns parentData stores fs \<noteq> Some (Inl LocationNotComputed)
       \<and> getPackageInformationStores n env lockfileFolder seedPatterns fs
            \<noteq> Some (Inl ReferenceNotComputed)
       \<and> getPackageInformationStores n env lockfileFolder seedPatterns fs
            \<noteq> Some (Inl LocationNotComputed)"
proof -
  from assms have versions: "\<And>p pkg. getStrictResolvedPattern env p = Some pkg \<Longrightarrow> pkg_version pkg \<noteq> []"
    and computed: "\<And>d f. path_resolve env d f \<noteq> []"
    by blast+
  have first: "truthy (map_of resolutions (pkg_name pkg)) \<noteq> None
                \<and> truthy (map_of locations (pkg_name pkg)) \<noteq> None"
    if "pass1 env parentData seedPatterns [] [] fs = Inr (resolutions, locations, fs1)"
      "p \<in> set seedPatterns" "getResolverEntry env p = Inr (Some (pkg, ref, loc))"
    for p pkg ref loc
    by (rule pass1_truthy [OF that(1) versions computed that(2,3)])
  have visit: "\<not> invariant_failure e" if "visit n env seeds pd st fs = Some (Inl e)"
    for seeds pd st e
    by (rule no_invariant_failure_aux(1) [OF versions computed refl that])
  have build: "\<not> invariant_failure e"
    if "getPackageInformationStores n env lockfileFolder seedPatterns fs = Some (Inl e)" for e
  proof (cases "fs_realpath env fs lockfileFolder")
    case None
    with that have "e = RealpathError"
      by (simp add: getPackageInformationStores_def)
    then show ?thesis by (simp add: invariant_failure_def)
  next
    case (Some root)
    with that have "visit n env seedPatterns [] [] fs = Some (Inl e)"
      by (simp add: getPackageInformationStores_def split: option.splits sum.splits prod.splits)
    then show ?thesis by (rule visit)
  qed
  from first visit [of seedPatterns parentData stores] build show ?thesis
    unfolding invariant_failure_def by blast
qed

lemma peer_graph_versions:
  "\<forall>p pkg. getStrictResolvedPattern (posix_env peer_graph) p = Some pkg \<longrightarrow> pkg_version pkg \<noteq> []"
  by (auto simp: posix_env_def peer_graph_def package_def split: if_splits)

theorem invariant_failures_unreachable_witness:
  "pass1 (posix_env peer_graph) [''app'', ''1.0.0''] [''react@16'', ''react-dom@16''] [] [] ()
     = Inr ([(''react'', ''pnp:app1.0.0react16.0.0''),
             (''react-dom'', ''pnp:app1.0.0react-dom16.0.0'')],
            [(''react'', ''/cache/react/pnp-app1.0.0react16.0.0''),
             (''react-dom'', ''/cache/react-dom/pnp-app1.0.0react-dom16.0.0'')], ())
   \<and> truthy (map_of [(''react'', ''pnp:app1.0.0react16.0.0''),
                     (''react-dom'', ''pnp:app1.0.0react-dom16.0.0'')] ''react-dom'') \<noteq> None
   \<and> truthy (map_of [(''react'', ''/cache/react/pnp-app1.0.0react16.0.0''),
                     (''react-dom'', ''/cache/react-dom/pnp-app1.0.0react-dom16.0.0'')]
               ''react-dom'') \<noteq> None
   \<and> visit 4 (posix_env peer_graph) [''app@1''] [] [] () \<noteq> Some (Inl ReferenceNotComputed)
   \<and> visit 4 (posix_env peer_graph) [''app@1''] [] [] () \<noteq> Some (Inl LocationNotComputed)"
proof -
  let ?env = "posix_env peer_graph"
  let ?res = "[(''react'', ''pnp:app1.0.0react16.0.0''),
               (''react-dom'', ''pnp:app1.0.0react-dom16.0.0'')]"
  let ?locs = "[(''react'', ''/cache/react/pnp-app1.0.0react16.0.0''),
                (''react-dom'', ''/cache/react-dom/pnp-app1.0.0react-dom16.0.0'')]"
  have computed: "\<forall>d f. path_resolve ?env d f \<noteq> []"
    by (simp add: posix_env_def)
  note unreachable = invariant_failures_unreachable [OF peer_graph_versions computed]
  have first: "pass1 ?env [''app'', ''1.0.0''] [''react@16'', ''react-dom@16''] [] [] ()
      = Inr (?res, ?locs, ())"
    by code_simp
  have entry: "getResolverEntry ?env ''react-dom@16''
      = Inr (Some (package ''react-dom'' ''16.0.0'' [''react''] ''/cache/react-dom'' [''react@16''],
                   \<lparr>ref_location = Some ''/cache/react-dom'', ref_dependencies = [''react@16'']\<rparr>,
                   ''/cache/react-dom''))"
    by code_simp
  have name: "pkg_name (package ''react-dom'' ''16.0.0'' [''react''] ''/cache/react-dom'' [''react@16''])
      = ''react-dom''"
    by (simp add: package_def)
  from unreachable [THEN conjunct1, THEN mp, OF first, THEN bspec, of "''react-dom@16''"] entry name
  have "truthy (map_of ?res ''react-dom'') \<noteq> None \<and> truthy (map_of ?locs ''react-dom'') \<noteq> None"
    by (metis list.set_intros(1,2))
  with first unreachable [THEN conjunct2, of 4 "[''app@1'']" "[]" "[]" "()"] show ?thesis
    by blast
qed

subsection \<open>The store only grows\<close>

lemma store_lookup_register:
  "store_lookup (register_information n r info st) k q
     = (if k = Some n \<and> q = Some r then Some info else store_lookup st k q)"
  by (auto simp: store_lookup_def register_information_def update_conv' split: option.splits)

lemma store_lookup_set_packageDependencies:
  "store_lookup (set_packageDependencies n r deps st) k q
     = (if k = Some n \<and> q = Some r
        then map_option (\<lambda>info. info\<lparr>packageDependencies := deps\<rparr>) (store_lookup st k q)
        else store_lookup st k q)"
  by (auto simp: store_lookup_def set_packageDependencies_def map_of_map_entry split: option.splits)

lemma visit_frame:
  assumes run: "visit n env seeds pd st fs = Some (Inr (res, st', fs'))"
    and present: "store_lookup st k q = Some info"
  shows "store_lookup st' k q = Some info"
proof (rule visit_preserve [where I = "\<lambda>st. store_lookup st k q = Some info"
      and G = "\<lambda>_ _. True", OF run present])
  fix st p res locs pkg ref r st1
  assume here: "store_lookup st k q = Some info"
    and "pass2_entry env p res locs st = Inr (Recurse pkg ref r st1)"
  then have fresh: "store_lookup st (Some (pkg_name pkg)) (Some r) = None"
    and st1: "\<exists>l. st1 = register_information (pkg_name pkg) r (new_information env pkg l) st"
    by (blast dest: pass2_entry_Recurse)+
  from here fresh have "\<not> (k = Some (pkg_name pkg) \<and> q = Some r)"
    by auto
  with here st1 show "store_lookup st1 k q = Some info"
    by (auto simp: store_lookup_register)
  fix st2 :: PackageInformationStores and deps
  assume "store_lookup st2 k q = Some info"
  with \<open>\<not> (k = Some (pkg_name pkg) \<and> q = Some r)\<close>
  show "store_lookup (set_packageDependencies (pkg_name pkg) r deps st2) k q = Some info"
    by (auto simp: store_lookup_set_packageDependencies)
qed simp

lemma pass2_frame:
  assumes run: "pass2 n env seeds res locs st fs = Some (Inr (st', fs'))"
    and present: "store_lookup st k q = Some info"
  shows "store_lookup st' k q = Some info"
proof (rule pass2_preserve [where I = "\<lambda>st. store_lookup st k q = Some info"
      and G = "\<lambda>_ _. True", OF run present])
  fix st p res locs pkg ref r st1
  assume here: "store_lookup st k q = Some info"
    and "pass2_entry env p res locs st = Inr (Recurse pkg ref r st1)"
  then have fresh: "store_lookup st (Some (pkg_name pkg)) (Some r) = None"
    and st1: "\<exists>l. st1 = register_information (pkg_name pkg) r (new_information env pkg l) st"
    by (blast dest: pass2_entry_Recurse)+
  from here fresh have "\<not> (k = Some (pkg_name pkg) \<and> q = Some r)"
    by auto
  with here st1 show "store_lookup st1 k q = Some info"
    by (auto simp: store_lookup_register)
  fix st2 :: PackageInformationStores and deps
  assume "store_lookup st2 k q = Some info"
  with \<open>\<not> (k = Some (pkg_name pkg) \<and> q = Some r)\<close>
  show "store_lookup (set_packageDependencies (pkg_name pkg) r deps st2) k q = Some info"
    by (auto simp: store_lookup_set_packageDependencies)
qed simp_all










subsection \<open>Peer dependencies of a new instance\<close>

lemma inject_peers_lookup:
  "map_of (inject_peers res peers deps) d
     = (if d \<in> set peers
        then (case truthy (map_of res d) of None \<Rightarrow> map_of deps d | Some r \<Rightarrow> Some r)
        else map_of deps d)"
  by (induction peers arbitrary: deps) (auto simp: update_conv' split: option.splits)

lemma visit_result_names:
  assumes "visit n env seeds pd st fs = Some (Inr (res, st', fs'))"
    and "map_of res d = Some x"
  shows "\<exists>p \<in> set seeds. \<exists>pkg ref loc.
           getResolverEntry env p = Inr (Some (pkg, ref, loc)) \<and> pkg_name pkg = d
         \<and> x = reference_of env pd pkg"
proof (cases n)
  case 0
  with assms show ?thesis by simp
next
  case (Suc m)
  with assms(1) have "visit (Suc m) env seeds pd st fs = Some (Inr (res, st', fs'))"
    by simp
  then obtain locs fs1 where "pass1 env pd seeds [] [] fs = Inr (res, locs, fs1)"
    by (rule visit_Suc_Inr)
  from pass1_resolutions [OF this assms(2)] show ?thesis by simp
qed

lemma directDependencies_no_peer:
  assumes "p \<in> set (directDependencies env peers ref)"
    and "getResolverEntry env p = Inr (Some (pkg, ref', loc))"
  shows "pkg_name pkg \<notin> set peers"
  using assms
  by (auto simp: directDependencies_def dest!: getResolverEntry_resolved)

lemma pass2_Recurse_unfold:
  assumes "pass2_entry env pattern resolutions locations stores = Inr (Recurse pkg ref r entered)"
    and "visit n env (directDependencies env (pkg_peerDependencies pkg) ref)
           [pkg_name pkg, r] entered fs = Some (Inr (deps, returned, fs1))"
  shows "pass2 n env (pattern # rest) resolutions locations stores fs
     = pass2 n env rest resolutions locations
         (set_packageDependencies (pkg_name pkg) r
            (inject_peers resolutions (pkg_peerDependencies pkg) deps) returned) fs1"
  using assms by simp

lemma pass2_new_entry:
  assumes entry: "pass2_entry env pattern resolutions locations stores = Inr (Recurse pkg ref r entered)"
    and child: "visit n env (directDependencies env (pkg_peerDependencies pkg) ref)
           [pkg_name pkg, r] entered fs = Some (Inr (deps, returned, fs1))"
    and rest: "pass2 n env rest resolutions locations
           (set_packageDependencies (pkg_name pkg) r
              (inject_peers resolutions (pkg_peerDependencies pkg) deps) returned) fs1
         = Some (Inr (stores', fs'))"
  obtains l where "truthy (map_of locations (pkg_name pkg)) = Some l"
    and "store_lookup stores (Some (pkg_name pkg)) (Some r) = None"
    and "store_lookup entered (Some (pkg_name pkg)) (Some r) = Some (new_information env pkg l)"
    and "store_lookup returned (Some (pkg_name pkg)) (Some r) = Some (new_information env pkg l)"
    and "store_lookup stores' (Some (pkg_name pkg)) (Some r)
           = Some ((new_information env pkg l)
                     \<lparr>packageDependencies :=
                        inject_peers resolutions (pkg_peerDependencies pkg) deps\<rparr>)"
proof -
  from pass2_entry_Recurse [OF entry] obtain l
    where l: "truthy (map_of locations (pkg_name pkg)) = Some l"
      and fresh: "store_lookup stores (Some (pkg_name pkg)) (Some r) = None"
      and entered: "entered = register_information (pkg_name pkg) r (new_information env pkg l) stores"
    by blast
  from entered have e: "store_lookup entered (Some (pkg_name pkg)) (Some r)
      = Some (new_information env pkg l)"
    by (simp add: store_lookup_register)
  with child have r: "store_lookup returned (Some (pkg_name pkg)) (Some r)
      = Some (new_information env pkg l)"
    by (rule visit_frame)
  then have "store_lookup (set_packageDependencies (pkg_name pkg) r
              (inject_peers resolutions (pkg_peerDependencies pkg) deps) returned)
            (Some (pkg_name pkg)) (Some r)
      = Some ((new_information env pkg l)
                \<lparr>packageDependencies := inject_peers resolutions (pkg_peerDependencies pkg) deps\<rparr>)"
    by (simp add: store_lookup_set_packageDependencies)
  with rest have "store_lookup stores' (Some (pkg_name pkg)) (Some r)
      = Some ((new_information env pkg l)
                \<lparr>packageDependencies := inject_peers resolutions (pkg_peerDependencies pkg) deps\<rparr>)"
    by (rule pass2_frame)
  with l fresh e r that show thesis by blast
qed

lemma child_result_no_peer:
  assumes "visit n env (directDependencies env peers ref) pd st fs = Some (Inr (deps, st', fs'))"
    and "d \<in> set peers"
  shows "map_of deps d = None"
proof (cases "map_of deps d")
  case None
  then show ?thesis .
next
  case (Some x)
  from visit_result_names [OF assms(1) Some] obtain p pkg ref' loc
    where "p \<in> set (directDependencies env peers ref)"
      "getResolverEntry env p = Inr (Some (pkg, ref', loc))" "pkg_name pkg = d"
    by blast
  with directDependencies_no_peer [of p env peers ref pkg ref' loc] assms(2) show ?thesis
    by simp
qed

text \<open>
  C6. Take an iteration of the second loop that registers a new instance, whose
  recursive visit returns, and after which the loop runs to its end. The instance was
  absent before; it has no dependencies at all when the recursion starts and still none
  when the recursion returns; and in the stores at the end of the loop its
  \<open>packageDependencies\<close> give, for each of its peer names, the truthy reference that the
  resolutions of this very scope hold for the name, and nothing when they hold none,
  and for every other name what the recursive visit returned.
\<close>

theorem peer_dependencies_after_recursion:
  assumes "pass2_entry env pattern resolutions locations stores = Inr (Recurse pkg ref r entered)"
    and "visit n env (directDependencies env (pkg_peerDependencies pkg) ref)
           [pkg_name pkg, r] entered fs = Some (Inr (deps, returned, fs1))"
    and "pass2 n env rest resolutions locations
           (set_packageDependencies (pkg_name pkg) r
              (inject_peers resolutions (pkg_peerDependencies pkg) deps) returned) fs1
         = Some (Inr (stores', fs'))"
  shows "pass2 n env (pattern # rest) resolutions locations stores fs = Some (Inr (stores', fs'))
       \<and> store_lookup stores (Some (pkg_name pkg)) (Some r) = None
       \<and> (\<exists>info. store_lookup entered (Some (pkg_name pkg)) (Some r) = Some info
              \<and> packageDependencies info = [])
       \<and> (\<exists>info. store_lookup returned (Some (pkg_name pkg)) (Some r) = Some info
              \<and> packageDependencies info = [])
       \<and> (\<exists>info. store_lookup stores' (Some (pkg_name pkg)) (Some r) = Some info
              \<and> (\<forall>d. map_of (packageDependencies info) d
                       = (if d \<in> set (pkg_peerDependencies pkg)
                          then truthy (map_of resolutions d) else map_of deps d)))"
proof -
  from assms obtain l
    where fresh: "store_lookup stores (Some (pkg_name pkg)) (Some r) = None"
      and e: "store_lookup entered (Some (pkg_name pkg)) (Some r) = Some (new_information env pkg l)"
      and r: "store_lookup returned (Some (pkg_name pkg)) (Some r) = Some (new_information env pkg l)"
      and f: "store_lookup stores' (Some (pkg_name pkg)) (Some r)
           = Some ((new_information env pkg l)
                     \<lparr>packageDependencies :=
                        inject_peers resolutions (pkg_peerDependencies pkg) deps\<rparr>)"
    by (rule pass2_new_entry)
  have run: "pass2 n env (pattern # rest) resolutions locations stores fs = Some (Inr (stores', fs'))"
    using pass2_Recurse_unfold [OF assms(1,2)] assms(3) by simp
  have empty: "packageDependencies (new_information env pkg l) = []"
    by (simp add: new_information_def)
  have "map_of (inject_peers resolutions (pkg_peerDependencies pkg) deps) d
      = (if d \<in> set (pkg_peerDependencies pkg) then truthy (map_of resolutions d) else map_of deps d)"
    for d
    using child_result_no_peer [OF assms(2), of d]
    by (auto simp: inject_peers_lookup split: option.splits)
  with f have "\<exists>info. store_lookup stores' (Some (pkg_name pkg)) (Some r) = Some info
              \<and> (\<forall>d. map_of (packageDependencies info) d
                       = (if d \<in> set (pkg_peerDependencies pkg)
                          then truthy (map_of resolutions d) else map_of deps d))"
    by simp
  with run fresh e r empty show ?thesis
    by simp
qed

theorem peer_dependencies_after_recursion_witness:
  "pass2 1 (posix_env peer_graph) [''react@16'', ''react-dom@16''] peer_resolutions peer_locations
      peer_before ()
     = Some (Inr (peer_after, ()))
   \<and> store_lookup peer_before (Some ''react'') (Some ''pnp:app1.0.0react16.0.0'') = None
   \<and> (\<exists>info. store_lookup peer_after (Some ''react'') (Some ''pnp:app1.0.0react16.0.0'') = Some info
          \<and> map_of (packageDependencies info) ''react-dom'' = Some ''pnp:app1.0.0react-dom16.0.0''
          \<and> map_of (packageDependencies info) ''prop-types'' = None)"
proof -
  let ?env = "posix_env peer_graph"
  let ?react = "package ''react'' ''16.0.0'' [''react-dom'', ''prop-types''] ''/cache/react'' []"
  let ?ref = "\<lparr>ref_location = Some ''/cache/react'', ref_dependencies = []\<rparr>"
  let ?r = "''pnp:app1.0.0react16.0.0''"
  have name: "pkg_name ?react = ''react''"
    and peers: "pkg_peerDependencies ?react = [''react-dom'', ''prop-types'']"
    by (simp_all add: package_def)
  have entry: "pass2_entry ?env ''react@16'' peer_resolutions peer_locations peer_before
      = Inr (Recurse ?react ?ref ?r peer_entered)"
    by code_simp
  have child: "visit 1 ?env (directDependencies ?env (pkg_peerDependencies ?react) ?ref)
      [pkg_name ?react, ?r] peer_entered () = Some (Inr ([], peer_entered, ()))"
    by code_simp
  have rest: "pass2 1 ?env [''react-dom@16''] peer_resolutions peer_locations
      (set_packageDependencies (pkg_name ?react) ?r
         (inject_peers peer_resolutions (pkg_peerDependencies ?react) []) peer_entered) ()
      = Some (Inr (peer_after, ()))"
    by code_simp
  note facts = peer_dependencies_after_recursion [OF entry child rest]
  from facts have run: "pass2 1 ?env [''react@16'', ''react-dom@16''] peer_resolutions
      peer_locations peer_before () = Some (Inr (peer_after, ()))"
    and fresh: "store_lookup peer_before (Some ''react'') (Some ?r) = None"
    unfolding name by blast+
  from facts obtain info
    where info: "store_lookup peer_after (Some ''react'') (Some ?r) = Some info"
      and deps: "\<And>d. map_of (packageDependencies info) d
          = (if d \<in> set [''react-dom'', ''prop-types'']
             then truthy (map_of peer_resolutions d) else map_of [] d)"
    unfolding name peers by blast
  have "truthy (map_of peer_resolutions ''react-dom'') = Some ''pnp:app1.0.0react-dom16.0.0''"
    and "truthy (map_of peer_resolutions ''prop-types'') = None"
    by code_simp+
  with deps [of "''react-dom''"] deps [of "''prop-types''"]
  have "map_of (packageDependencies info) ''react-dom'' = Some ''pnp:app1.0.0react-dom16.0.0''"
    and "map_of (packageDependencies info) ''prop-types'' = None"
    by simp_all
  with run fresh info show ?thesis
    by blast
qed

subsection \<open>Virtual references\<close>

lemma pass1_reference:
  assumes first: "pass1 env pd seeds [] [] fs = Inr (res, locs, fs1)"
    and p: "p \<in> set seeds" "getResolverEntry env p = Inr (Some (pkg, ref, loc))"
    and unambiguous: "\<forall>q \<in> set seeds. \<forall>pkg' ref' loc'.
        getResolverEntry env q = Inr (Some (pkg', ref', loc')) \<and> pkg_name pkg' = pkg_name pkg
          \<longrightarrow> pkg' = pkg"
  shows "map_of res (pkg_name pkg) = Some (reference_of env pd pkg)"
proof -
  from pass1_records [OF first p] obtain r where r: "map_of res (pkg_name pkg) = Some r"
    by auto
  from pass1_resolutions [OF first r] obtain q pkg' ref' loc'
    where "q \<in> set seeds" "getResolverEntry env q = Inr (Some (pkg', ref', loc'))"
      "pkg_name pkg' = pkg_name pkg" "r = reference_of env pd pkg'"
    by auto
  with unambiguous have "r = reference_of env pd pkg"
    by blast
  with r show ?thesis by simp
qed

lemma pass2_registers:
  assumes "pass2 n env ps res locs st fs = Some (Inr (st', fs'))"
    and "p \<in> set ps"
    and "getResolverEntry env p = Inr (Some (pkg, ref, loc))"
  shows "\<exists>r info. truthy (map_of res (pkg_name pkg)) = Some r
           \<and> store_lookup st' (Some (pkg_name pkg)) (Some r) = Some info"
  using assms
proof (induction ps arbitrary: st fs)
  case Nil
  then show ?case by simp
next
  case (Cons q ps)
  from Cons.prems(1) show ?case
  proof (cases rule: pass2_Cons_Inr)
    case continue
    show ?thesis
    proof (cases "p = q")
      case True
      with continue(1) Cons.prems(3) obtain r info
        where "truthy (map_of res (pkg_name pkg)) = Some r"
          and "store_lookup st (Some (pkg_name pkg)) (Some r) = Some info"
        by (auto simp: pass2_entry_def store_of_unfold store_lookup_def
            split: option.splits)
      with pass2_frame [OF continue(2)] show ?thesis
        by blast
    next
      case False
      with Cons.prems(2) have "p \<in> set ps" by simp
      from Cons.IH [OF continue(2) this Cons.prems(3)] show ?thesis .
    qed
  next
    case (recurse pkg0 ref0 r0 st1 deps st2 fs2)
    show ?thesis
    proof (cases "p = q")
      case True
      from pass2_entry_Recurse [OF recurse(1)] True Cons.prems(3)
      have same: "pkg0 = pkg" and r0: "truthy (map_of res (pkg_name pkg)) = Some r0"
        by auto
      from pass2_new_entry [OF recurse] same r0 show ?thesis
        by metis
    next
      case False
      with Cons.prems(2) have "p \<in> set ps" by simp
      from Cons.IH [OF recurse(3) this Cons.prems(3)] show ?thesis .
    qed
  qed
qed

lemma set_packageDependencies_keeps:
  "store_lookup st k q = Some info
     \<Longrightarrow> \<exists>info'. store_lookup (set_packageDependencies n r deps st) k q = Some info'"
  by (auto simp: store_lookup_set_packageDependencies)

lemma pass2_fresh_Cons:
  assumes run: "pass2 n env (pattern # rest) resolutions locations stores fs = Some (Inr (stores', fs'))"
    and parent: "getResolverEntry env pattern = Inr (Some (pkg, ref, loc))"
    and r: "truthy (map_of resolutions (pkg_name pkg)) = Some r"
    and fresh: "store_lookup stores (Some (pkg_name pkg)) (Some r) = None"
  obtains entered deps returned fs1
  where "pass2_entry env pattern resolutions locations stores = Inr (Recurse pkg ref r entered)"
    and "visit n env (directDependencies env (pkg_peerDependencies pkg) ref)
           [pkg_name pkg, r] entered fs = Some (Inr (deps, returned, fs1))"
    and "pass2 n env rest resolutions locations
           (set_packageDependencies (pkg_name pkg) r
              (inject_peers resolutions (pkg_peerDependencies pkg) deps) returned) fs1
         = Some (Inr (stores', fs'))"
  using run
proof (cases rule: pass2_Cons_Inr)
  case continue
  from continue(1) parent r fresh have False
    by (auto simp: pass2_entry_def store_of_unfold store_lookup_def split: option.splits)
  then show ?thesis ..
next
  case (recurse pkg0 ref0 r0 st1 deps st2 fs2)
  from pass2_entry_Recurse [OF recurse(1)] parent r
  have "pkg0 = pkg" "ref0 = ref" "r0 = r"
    by auto
  with recurse that show ?thesis
    by blast
qed

lemma fresh_instance:
  assumes run: "pass2 n env (pattern # rest) resolutions locations stores fs = Some (Inr (stores', fs'))"
    and entry: "getResolverEntry env pattern = Inr (Some (pkg, ref, loc))"
    and r: "truthy (map_of resolutions (pkg_name pkg)) = Some r"
    and fresh: "store_lookup stores (Some (pkg_name pkg)) (Some r) = None"
  shows "\<exists>info. store_lookup stores' (Some (pkg_name pkg)) (Some r) = Some info
           \<and> (\<forall>d \<in> set (pkg_peerDependencies pkg).
                  map_of (packageDependencies info) d = truthy (map_of resolutions d))"
proof -
  from run entry r fresh obtain entered deps returned fs1
    where it: "pass2_entry env pattern resolutions locations stores
        = Inr (Recurse pkg ref r entered)"
      and child: "visit n env (directDependencies env (pkg_peerDependencies pkg) ref)
           [pkg_name pkg, r] entered fs = Some (Inr (deps, returned, fs1))"
      and rest: "pass2 n env rest resolutions locations
           (set_packageDependencies (pkg_name pkg) r
              (inject_peers resolutions (pkg_peerDependencies pkg) deps) returned) fs1
         = Some (Inr (stores', fs'))"
    by (rule pass2_fresh_Cons)
  from it child rest obtain l
    where final: "store_lookup stores' (Some (pkg_name pkg)) (Some r)
           = Some ((new_information env pkg l)
                     \<lparr>packageDependencies :=
                        inject_peers resolutions (pkg_peerDependencies pkg) deps\<rparr>)"
    by (rule pass2_new_entry)
  have "map_of (inject_peers resolutions (pkg_peerDependencies pkg) deps) d
      = truthy (map_of resolutions d)" if "d \<in> set (pkg_peerDependencies pkg)" for d
    using child_result_no_peer [OF child that] that
    by (auto simp: inject_peers_lookup split: option.splits)
  with final show ?thesis
    by simp
qed

lemma virtual_occurrence:
  assumes run: "pass2 n env (pattern # rest) resolutions locations stores fs = Some (Inr (stores', fs'))"
    and parent: "getResolverEntry env pattern = Inr (Some (parent, pref, ploc))"
    and r: "truthy (map_of resolutions (pkg_name parent)) = Some r"
    and fresh: "store_lookup stores (Some (pkg_name parent)) (Some r) = None"
    and dep: "dependency \<in> set (directDependencies env (pkg_peerDependencies parent) pref)"
    and entry: "getResolverEntry env dependency = Inr (Some (pkg, ref, loc))"
    and peers: "pkg_peerDependencies pkg \<noteq> []"
    and unambiguous: "\<forall>q \<in> set (directDependencies env (pkg_peerDependencies parent) pref).
        \<forall>pkg' ref' loc'.
          getResolverEntry env q = Inr (Some (pkg', ref', loc')) \<and> pkg_name pkg' = pkg_name pkg
            \<longrightarrow> pkg' = pkg"
  shows "\<exists>info. store_lookup stores' (Some (pkg_name parent)) (Some r) = Some info
           \<and> map_of (packageDependencies info) (pkg_name pkg)
               = Some (''pnp:'' @ sha1_hex env
                         (concat [pkg_name parent, r, pkg_name pkg, pkg_version pkg]))"
    and "\<exists>info. store_lookup stores' (Some (pkg_name pkg))
             (Some (''pnp:'' @ sha1_hex env
                      (concat [pkg_name parent, r, pkg_name pkg, pkg_version pkg])))
           = Some info"
proof -
  let ?v = "''pnp:'' @ sha1_hex env (concat [pkg_name parent, r, pkg_name pkg, pkg_version pkg])"
  from run parent r fresh obtain entered deps returned fs1
    where it: "pass2_entry env pattern resolutions locations stores
        = Inr (Recurse parent pref r entered)"
      and child: "visit n env (directDependencies env (pkg_peerDependencies parent) pref)
           [pkg_name parent, r] entered fs = Some (Inr (deps, returned, fs1))"
      and rest: "pass2 n env rest resolutions locations
           (set_packageDependencies (pkg_name parent) r
              (inject_peers resolutions (pkg_peerDependencies parent) deps) returned) fs1
         = Some (Inr (stores', fs'))"
    by (rule pass2_fresh_Cons)
  from child obtain m where n: "n = Suc m"
    by (cases n) simp_all
  from child [unfolded n] obtain locs1 fs2
    where first: "pass1 env [pkg_name parent, r]
          (directDependencies env (pkg_peerDependencies parent) pref) [] [] fs
        = Inr (deps, locs1, fs2)"
      and second: "pass2 m env (directDependencies env (pkg_peerDependencies parent) pref)
          deps locs1 entered fs2 = Some (Inr (returned, fs1))"
    by (rule visit_Suc_Inr)
  from peers have "reference_of env [pkg_name parent, r] pkg = ?v"
    by (simp add: reference_of_def getHashFrom_def)
  with pass1_reference [OF first dep entry unambiguous]
  have recorded: "map_of deps (pkg_name pkg) = Some ?v"
    by simp
  from it child rest obtain l
    where final: "store_lookup stores' (Some (pkg_name parent)) (Some r)
           = Some ((new_information env parent l)
                     \<lparr>packageDependencies :=
                        inject_peers resolutions (pkg_peerDependencies parent) deps\<rparr>)"
    by (rule pass2_new_entry)
  from directDependencies_no_peer [OF dep entry] recorded
  have "map_of (inject_peers resolutions (pkg_peerDependencies parent) deps) (pkg_name pkg)
      = Some ?v"
    by (simp add: inject_peers_lookup)
  with final show "\<exists>info. store_lookup stores' (Some (pkg_name parent)) (Some r) = Some info
           \<and> map_of (packageDependencies info) (pkg_name pkg) = Some ?v"
    by simp
  from pass2_registers [OF second dep entry] recorded obtain info
    where "store_lookup returned (Some (pkg_name pkg)) (Some ?v) = Some info"
    by (auto simp: truthy_def split: if_splits)
  then have "\<exists>info'. store_lookup
      (set_packageDependencies (pkg_name parent) r
         (inject_peers resolutions (pkg_peerDependencies parent) deps) returned)
      (Some (pkg_name pkg)) (Some ?v) = Some info'"
    by (rule set_packageDependencies_keeps)
  then obtain info' where "store_lookup
      (set_packageDependencies (pkg_name parent) r
         (inject_peers resolutions (pkg_peerDependencies parent) deps) returned)
      (Some (pkg_name pkg)) (Some ?v) = Some info'"
    by blast
  with rest have "store_lookup stores' (Some (pkg_name pkg)) (Some ?v) = Some info'"
    by (rule pass2_frame)
  then show "\<exists>info. store_lookup stores' (Some (pkg_name pkg)) (Some ?v) = Some info"
    by blast
qed

lemma virtual_root:
  assumes build: "getPackageInformationStores m env lockfileFolder seedPatterns fs
        = Some (Inr (built, fs'))"
    and seed: "seed \<in> set seedPatterns"
    and entry: "getResolverEntry env seed = Inr (Some (pkg, ref, loc))"
    and peers: "pkg_peerDependencies pkg \<noteq> []"
    and unambiguous: "\<forall>q \<in> set seedPatterns. \<forall>pkg' ref' loc'.
          getResolverEntry env q = Inr (Some (pkg', ref', loc')) \<and> pkg_name pkg' = pkg_name pkg
            \<longrightarrow> pkg' = pkg"
  shows "\<exists>root. store_lookup built None None = Some root
           \<and> map_of (packageDependencies root) (pkg_name pkg)
               = Some (''pnp:'' @ sha1_hex env (concat [pkg_name pkg, pkg_version pkg]))"
    and "\<exists>info. store_lookup built (Some (pkg_name pkg))
             (Some (''pnp:'' @ sha1_hex env (concat [pkg_name pkg, pkg_version pkg])))
           = Some info"
proof -
  let ?v = "''pnp:'' @ sha1_hex env (concat [pkg_name pkg, pkg_version pkg])"
  from build obtain root deps stores
    where run: "visit m env seedPatterns [] [] fs = Some (Inr (deps, stores, fs'))"
      and built: "built = AList.update None
            [(None, \<lparr>packageLocation = replace_trailing_sep (path_sep env) root,
                     packageMainEntry = None, packageDependencies = deps\<rparr>)] stores"
    by (auto simp: getPackageInformationStores_def split: option.splits sum.splits)
  from run obtain k where m: "m = Suc k"
    by (cases m) simp_all
  from run [unfolded m] obtain locs1 fs1
    where first: "pass1 env [] seedPatterns [] [] fs = Inr (deps, locs1, fs1)"
      and second: "pass2 k env seedPatterns deps locs1 [] fs1 = Some (Inr (stores, fs'))"
    by (rule visit_Suc_Inr)
  from peers have "reference_of env [] pkg = ?v"
    by (simp add: reference_of_def getHashFrom_def)
  with pass1_reference [OF first seed entry unambiguous]
  have recorded: "map_of deps (pkg_name pkg) = Some ?v"
    by simp
  with built show "\<exists>root. store_lookup built None None = Some root
           \<and> map_of (packageDependencies root) (pkg_name pkg) = Some ?v"
    by (simp add: store_lookup_def update_conv')
  from pass2_registers [OF second seed entry] recorded obtain info
    where "store_lookup stores (Some (pkg_name pkg)) (Some ?v) = Some info"
    by (auto simp: truthy_def split: if_splits)
  with built show "\<exists>info. store_lookup built (Some (pkg_name pkg)) (Some ?v) = Some info"
    by (simp add: store_lookup_def update_conv')
qed

text \<open>
  C2, as the code has it. An iteration of the second loop that finds the reference \<open>r\<close>
  of its package not yet in the store leaves an entry under that name and \<open>r\<close>, whose
  \<open>packageDependencies\<close> hold, for each peer name of the package, the truthy reference
  the resolutions of the iterating scope have for it, and, for each direct dependency
  with peer dependencies of its own (where the direct dependencies do not resolve its
  name to two manifests), \<open>pnp:\<close> followed by the digest of the concatenation of the
  package's name, \<open>r\<close>, the dependency's name and the dependency's version; the
  dependency has a store entry under that reference. Nothing of the scopes above
  enters but \<open>r\<close>. The same manifest as a direct dependency of two registered
  packages is recorded under the same reference by both exactly when the two digests
  are equal. For a seed pattern of the root the digest is that of the name and the
  version alone, and the reference is recorded in the root entry.
\<close>

theorem virtual_reference:
  "(pass2 n env (pattern # rest) resolutions locations stores fs = Some (Inr (stores', fs'))
      \<and> getResolverEntry env pattern = Inr (Some (pkg, ref, loc))
      \<and> truthy (map_of resolutions (pkg_name pkg)) = Some r
      \<and> store_lookup stores (Some (pkg_name pkg)) (Some r) = None
    \<longrightarrow> (\<exists>info. store_lookup stores' (Some (pkg_name pkg)) (Some r) = Some info
          \<and> (\<forall>d \<in> set (pkg_peerDependencies pkg).
                 map_of (packageDependencies info) d = truthy (map_of resolutions d))
          \<and> (\<forall>dependency \<in> set (directDependencies env (pkg_peerDependencies pkg) ref).
               \<forall>dpkg dref dloc.
                 getResolverEntry env dependency = Inr (Some (dpkg, dref, dloc))
               \<and> pkg_peerDependencies dpkg \<noteq> []
               \<and> (\<forall>q \<in> set (directDependencies env (pkg_peerDependencies pkg) ref).
                    \<forall>pkg' ref' loc'.
                      getResolverEntry env q = Inr (Some (pkg', ref', loc'))
                      \<and> pkg_name pkg' = pkg_name dpkg \<longrightarrow> pkg' = dpkg)
               \<longrightarrow> map_of (packageDependencies info) (pkg_name dpkg)
                     = Some (''pnp:'' @ sha1_hex env
                               (concat [pkg_name pkg, r, pkg_name dpkg, pkg_version dpkg]))
                 \<and> (\<exists>dinfo. store_lookup stores' (Some (pkg_name dpkg))
                        (Some (''pnp:'' @ sha1_hex env
                                 (concat [pkg_name pkg, r, pkg_name dpkg, pkg_version dpkg])))
                      = Some dinfo))))
   \<and> (pass2 n1 env (pattern1 # rest1) resolutions1 locations1 stores1 fs1
        = Some (Inr (stores1', fs1'))
      \<and> getResolverEntry env pattern1 = Inr (Some (parent1, pref1, ploc1))
      \<and> truthy (map_of resolutions1 (pkg_name parent1)) = Some r1
      \<and> store_lookup stores1 (Some (pkg_name parent1)) (Some r1) = None
      \<and> dependency1 \<in> set (directDependencies env (pkg_peerDependencies parent1) pref1)
      \<and> getResolverEntry env dependency1 = Inr (Some (shared, sref, sloc))
      \<and> (\<forall>q \<in> set (directDependencies env (pkg_peerDependencies parent1) pref1).
           \<forall>pkg' ref' loc'.
             getResolverEntry env q = Inr (Some (pkg', ref', loc'))
             \<and> pkg_name pkg' = pkg_name shared \<longrightarrow> pkg' = shared)
      \<and> pass2 n2 env (pattern2 # rest2) resolutions2 locations2 stores2 fs2
        = Some (Inr (stores2', fs2'))
      \<and> getResolverEntry env pattern2 = Inr (Some (parent2, pref2, ploc2))
      \<and> truthy (map_of resolutions2 (pkg_name parent2)) = Some r2
      \<and> store_lookup stores2 (Some (pkg_name parent2)) (Some r2) = None
      \<and> dependency2 \<in> set (directDependencies env (pkg_peerDependencies parent2) pref2)
      \<and> getResolverEntry env dependency2 = Inr (Some (shared, sref, sloc))
      \<and> (\<forall>q \<in> set (directDependencies env (pkg_peerDependencies parent2) pref2).
           \<forall>pkg' ref' loc'.
             getResolverEntry env q = Inr (Some (pkg', ref', loc'))
             \<and> pkg_name pkg' = pkg_name shared \<longrightarrow> pkg' = shared)
      \<and> pkg_peerDependencies shared \<noteq> []
    \<longrightarrow> (\<exists>info1 info2.
            store_lookup stores1' (Some (pkg_name parent1)) (Some r1) = Some info1
          \<and> store_lookup stores2' (Some (pkg_name parent2)) (Some r2) = Some info2
          \<and> (map_of (packageDependencies info1) (pkg_name shared)
                 = map_of (packageDependencies info2) (pkg_name shared)
               \<longleftrightarrow> sha1_hex env (concat [pkg_name parent1, r1, pkg_name shared, pkg_version shared])
                   = sha1_hex env (concat [pkg_name parent2, r2, pkg_name shared, pkg_version shared]))))
   \<and> (getPackageInformationStores m env lockfileFolder seedPatterns fs0 = Some (Inr (built, fs0'))
      \<and> seed \<in> set seedPatterns
      \<and> getResolverEntry env seed = Inr (Some (spkg, ref0, loc0))
      \<and> pkg_peerDependencies spkg \<noteq> []
      \<and> (\<forall>q \<in> set seedPatterns. \<forall>pkg' ref' loc'.
             getResolverEntry env q = Inr (Some (pkg', ref', loc'))
             \<and> pkg_name pkg' = pkg_name spkg \<longrightarrow> pkg' = spkg)
    \<longrightarrow> (\<exists>root. store_lookup built None None = Some root
          \<and> map_of (packageDependencies root) (pkg_name spkg)
              = Some (''pnp:'' @ sha1_hex env (concat [pkg_name spkg, pkg_version spkg])))
      \<and> (\<exists>info. store_lookup built (Some (pkg_name spkg))
             (Some (''pnp:'' @ sha1_hex env (concat [pkg_name spkg, pkg_version spkg])))
           = Some info))"
proof (intro conjI)
  show "pass2 n env (pattern # rest) resolutions locations stores fs = Some (Inr (stores', fs'))
      \<and> getResolverEntry env pattern = Inr (Some (pkg, ref, loc))
      \<and> truthy (map_of resolutions (pkg_name pkg)) = Some r
      \<and> store_lookup stores (Some (pkg_name pkg)) (Some r) = None
    \<longrightarrow> (\<exists>info. store_lookup stores' (Some (pkg_name pkg)) (Some r) = Some info
          \<and> (\<forall>d \<in> set (pkg_peerDependencies pkg).
                 map_of (packageDependencies info) d = truthy (map_of resolutions d))
          \<and> (\<forall>dependency \<in> set (directDependencies env (pkg_peerDependencies pkg) ref).
               \<forall>dpkg dref dloc.
                 getResolverEntry env dependency = Inr (Some (dpkg, dref, dloc))
               \<and> pkg_peerDependencies dpkg \<noteq> []
               \<and> (\<forall>q \<in> set (directDependencies env (pkg_peerDependencies pkg) ref).
                    \<forall>pkg' ref' loc'.
                      getResolverEntry env q = Inr (Some (pkg', ref', loc'))
                      \<and> pkg_name pkg' = pkg_name dpkg \<longrightarrow> pkg' = dpkg)
               \<longrightarrow> map_of (packageDependencies info) (pkg_name dpkg)
                     = Some (''pnp:'' @ sha1_hex env
                               (concat [pkg_name pkg, r, pkg_name dpkg, pkg_version dpkg]))
                 \<and> (\<exists>dinfo. store_lookup stores' (Some (pkg_name dpkg))
                        (Some (''pnp:'' @ sha1_hex env
                                 (concat [pkg_name pkg, r, pkg_name dpkg, pkg_version dpkg])))
                      = Some dinfo)))"
  proof (intro impI, elim conjE)
    assume run: "pass2 n env (pattern # rest) resolutions locations stores fs
        = Some (Inr (stores', fs'))"
      and entry: "getResolverEntry env pattern = Inr (Some (pkg, ref, loc))"
      and r: "truthy (map_of resolutions (pkg_name pkg)) = Some r"
      and fresh: "store_lookup stores (Some (pkg_name pkg)) (Some r) = None"
    from fresh_instance [OF run entry r fresh] obtain info
      where info: "store_lookup stores' (Some (pkg_name pkg)) (Some r) = Some info"
        and injected: "\<forall>d \<in> set (pkg_peerDependencies pkg).
            map_of (packageDependencies info) d = truthy (map_of resolutions d)"
      by blast
    have "map_of (packageDependencies info) (pkg_name dpkg)
            = Some (''pnp:'' @ sha1_hex env
                      (concat [pkg_name pkg, r, pkg_name dpkg, pkg_version dpkg]))
        \<and> (\<exists>dinfo. store_lookup stores' (Some (pkg_name dpkg))
               (Some (''pnp:'' @ sha1_hex env
                        (concat [pkg_name pkg, r, pkg_name dpkg, pkg_version dpkg])))
             = Some dinfo)"
      if dep: "dependency \<in> set (directDependencies env (pkg_peerDependencies pkg) ref)"
        and dentry: "getResolverEntry env dependency = Inr (Some (dpkg, dref, dloc))"
        and peers: "pkg_peerDependencies dpkg \<noteq> []"
        and unambiguous: "\<forall>q \<in> set (directDependencies env (pkg_peerDependencies pkg) ref).
            \<forall>pkg' ref' loc'.
              getResolverEntry env q = Inr (Some (pkg', ref', loc'))
              \<and> pkg_name pkg' = pkg_name dpkg \<longrightarrow> pkg' = dpkg"
      for dependency dpkg dref dloc
      using virtual_occurrence [OF run entry r fresh dep dentry peers unambiguous] info
      by (simp del: concat.simps)
    then have direct: "\<forall>dependency \<in> set (directDependencies env (pkg_peerDependencies pkg) ref).
               \<forall>dpkg dref dloc.
                 getResolverEntry env dependency = Inr (Some (dpkg, dref, dloc))
               \<and> pkg_peerDependencies dpkg \<noteq> []
               \<and> (\<forall>q \<in> set (directDependencies env (pkg_peerDependencies pkg) ref).
                    \<forall>pkg' ref' loc'.
                      getResolverEntry env q = Inr (Some (pkg', ref', loc'))
                      \<and> pkg_name pkg' = pkg_name dpkg \<longrightarrow> pkg' = dpkg)
               \<longrightarrow> map_of (packageDependencies info) (pkg_name dpkg)
                     = Some (''pnp:'' @ sha1_hex env
                               (concat [pkg_name pkg, r, pkg_name dpkg, pkg_version dpkg]))
                 \<and> (\<exists>dinfo. store_lookup stores' (Some (pkg_name dpkg))
                        (Some (''pnp:'' @ sha1_hex env
                                 (concat [pkg_name pkg, r, pkg_name dpkg, pkg_version dpkg])))
                      = Some dinfo)"
      by (intro ballI allI impI, elim conjE)
    from info injected direct show "\<exists>info. store_lookup stores' (Some (pkg_name pkg)) (Some r) = Some info
          \<and> (\<forall>d \<in> set (pkg_peerDependencies pkg).
                 map_of (packageDependencies info) d = truthy (map_of resolutions d))
          \<and> (\<forall>dependency \<in> set (directDependencies env (pkg_peerDependencies pkg) ref).
               \<forall>dpkg dref dloc.
                 getResolverEntry env dependency = Inr (Some (dpkg, dref, dloc))
               \<and> pkg_peerDependencies dpkg \<noteq> []
               \<and> (\<forall>q \<in> set (directDependencies env (pkg_peerDependencies pkg) ref).
                    \<forall>pkg' ref' loc'.
                      getResolverEntry env q = Inr (Some (pkg', ref', loc'))
                      \<and> pkg_name pkg' = pkg_name dpkg \<longrightarrow> pkg' = dpkg)
               \<longrightarrow> map_of (packageDependencies info) (pkg_name dpkg)
                     = Some (''pnp:'' @ sha1_hex env
                               (concat [pkg_name pkg, r, pkg_name dpkg, pkg_version dpkg]))
                 \<and> (\<exists>dinfo. store_lookup stores' (Some (pkg_name dpkg))
                        (Some (''pnp:'' @ sha1_hex env
                                 (concat [pkg_name pkg, r, pkg_name dpkg, pkg_version dpkg])))
                      = Some dinfo))"
      by (intro exI [of _ info] conjI)
  qed
  show "pass2 n1 env (pattern1 # rest1) resolutions1 locations1 stores1 fs1
        = Some (Inr (stores1', fs1'))
      \<and> getResolverEntry env pattern1 = Inr (Some (parent1, pref1, ploc1))
      \<and> truthy (map_of resolutions1 (pkg_name parent1)) = Some r1
      \<and> store_lookup stores1 (Some (pkg_name parent1)) (Some r1) = None
      \<and> dependency1 \<in> set (directDependencies env (pkg_peerDependencies parent1) pref1)
      \<and> getResolverEntry env dependency1 = Inr (Some (shared, sref, sloc))
      \<and> (\<forall>q \<in> set (directDependencies env (pkg_peerDependencies parent1) pref1).
           \<forall>pkg' ref' loc'.
             getResolverEntry env q = Inr (Some (pkg', ref', loc'))
             \<and> pkg_name pkg' = pkg_name shared \<longrightarrow> pkg' = shared)
      \<and> pass2 n2 env (pattern2 # rest2) resolutions2 locations2 stores2 fs2
        = Some (Inr (stores2', fs2'))
      \<and> getResolverEntry env pattern2 = Inr (Some (parent2, pref2, ploc2))
      \<and> truthy (map_of resolutions2 (pkg_name parent2)) = Some r2
      \<and> store_lookup stores2 (Some (pkg_name parent2)) (Some r2) = None
      \<and> dependency2 \<in> set (directDependencies env (pkg_peerDependencies parent2) pref2)
      \<and> getResolverEntry env dependency2 = Inr (Some (shared, sref, sloc))
      \<and> (\<forall>q \<in> set (directDependencies env (pkg_peerDependencies parent2) pref2).
           \<forall>pkg' ref' loc'.
             getResolverEntry env q = Inr (Some (pkg', ref', loc'))
             \<and> pkg_name pkg' = pkg_name shared \<longrightarrow> pkg' = shared)
      \<and> pkg_peerDependencies shared \<noteq> []
    \<longrightarrow> (\<exists>info1 info2.
            store_lookup stores1' (Some (pkg_name parent1)) (Some r1) = Some info1
          \<and> store_lookup stores2' (Some (pkg_name parent2)) (Some r2) = Some info2
          \<and> (map_of (packageDependencies info1) (pkg_name shared)
                 = map_of (packageDependencies info2) (pkg_name shared)
               \<longleftrightarrow> sha1_hex env (concat [pkg_name parent1, r1, pkg_name shared, pkg_version shared])
                   = sha1_hex env (concat [pkg_name parent2, r2, pkg_name shared, pkg_version shared])))"
  proof (intro impI, elim conjE)
    assume one: "pass2 n1 env (pattern1 # rest1) resolutions1 locations1 stores1 fs1
          = Some (Inr (stores1', fs1'))"
        "getResolverEntry env pattern1 = Inr (Some (parent1, pref1, ploc1))"
        "truthy (map_of resolutions1 (pkg_name parent1)) = Some r1"
        "store_lookup stores1 (Some (pkg_name parent1)) (Some r1) = None"
        "dependency1 \<in> set (directDependencies env (pkg_peerDependencies parent1) pref1)"
        "getResolverEntry env dependency1 = Inr (Some (shared, sref, sloc))"
      and peers: "pkg_peerDependencies shared \<noteq> []"
      and unambiguous1: "\<forall>q \<in> set (directDependencies env (pkg_peerDependencies parent1) pref1).
           \<forall>pkg' ref' loc'.
             getResolverEntry env q = Inr (Some (pkg', ref', loc'))
             \<and> pkg_name pkg' = pkg_name shared \<longrightarrow> pkg' = shared"
      and two: "pass2 n2 env (pattern2 # rest2) resolutions2 locations2 stores2 fs2
          = Some (Inr (stores2', fs2'))"
        "getResolverEntry env pattern2 = Inr (Some (parent2, pref2, ploc2))"
        "truthy (map_of resolutions2 (pkg_name parent2)) = Some r2"
        "store_lookup stores2 (Some (pkg_name parent2)) (Some r2) = None"
        "dependency2 \<in> set (directDependencies env (pkg_peerDependencies parent2) pref2)"
        "getResolverEntry env dependency2 = Inr (Some (shared, sref, sloc))"
      and unambiguous2: "\<forall>q \<in> set (directDependencies env (pkg_peerDependencies parent2) pref2).
           \<forall>pkg' ref' loc'.
             getResolverEntry env q = Inr (Some (pkg', ref', loc'))
             \<and> pkg_name pkg' = pkg_name shared \<longrightarrow> pkg' = shared"
    from virtual_occurrence(1) [OF one peers unambiguous1] obtain info1
      where "store_lookup stores1' (Some (pkg_name parent1)) (Some r1) = Some info1"
        "map_of (packageDependencies info1) (pkg_name shared)
           = Some (''pnp:'' @ sha1_hex env
                     (concat [pkg_name parent1, r1, pkg_name shared, pkg_version shared]))"
      by blast
    moreover from virtual_occurrence(1) [OF two peers unambiguous2] obtain info2
      where "store_lookup stores2' (Some (pkg_name parent2)) (Some r2) = Some info2"
        "map_of (packageDependencies info2) (pkg_name shared)
           = Some (''pnp:'' @ sha1_hex env
                     (concat [pkg_name parent2, r2, pkg_name shared, pkg_version shared]))"
      by blast
    ultimately show "\<exists>info1 info2.
            store_lookup stores1' (Some (pkg_name parent1)) (Some r1) = Some info1
          \<and> store_lookup stores2' (Some (pkg_name parent2)) (Some r2) = Some info2
          \<and> (map_of (packageDependencies info1) (pkg_name shared)
                 = map_of (packageDependencies info2) (pkg_name shared)
               \<longleftrightarrow> sha1_hex env (concat [pkg_name parent1, r1, pkg_name shared, pkg_version shared])
                   = sha1_hex env (concat [pkg_name parent2, r2, pkg_name shared, pkg_version shared]))"
      by (intro exI [of _ info1] exI [of _ info2]) (simp del: concat.simps)
  qed
  show "getPackageInformationStores m env lockfileFolder seedPatterns fs0 = Some (Inr (built, fs0'))
      \<and> seed \<in> set seedPatterns
      \<and> getResolverEntry env seed = Inr (Some (spkg, ref0, loc0))
      \<and> pkg_peerDependencies spkg \<noteq> []
      \<and> (\<forall>q \<in> set seedPatterns. \<forall>pkg' ref' loc'.
             getResolverEntry env q = Inr (Some (pkg', ref', loc'))
             \<and> pkg_name pkg' = pkg_name spkg \<longrightarrow> pkg' = spkg)
    \<longrightarrow> (\<exists>root. store_lookup built None None = Some root
          \<and> map_of (packageDependencies root) (pkg_name spkg)
              = Some (''pnp:'' @ sha1_hex env (concat [pkg_name spkg, pkg_version spkg])))
      \<and> (\<exists>info. store_lookup built (Some (pkg_name spkg))
             (Some (''pnp:'' @ sha1_hex env (concat [pkg_name spkg, pkg_version spkg])))
           = Some info)"
    using virtual_root [of m env lockfileFolder seedPatterns fs0 built fs0' seed spkg ref0 loc0]
    by blast
qed

text \<open>
  C2 as stated fails: with two ancestry chains that end in the same parent, \<open>B\<close> gets a
  single reference, made from the parent alone, and a single store entry.
\<close>

theorem virtual_reference_counterexample:
  "getPackageInformationStores 5 (posix_env shared_parent_graph) ''/proj'' [''A1@1'', ''A2@1''] ()
     = Some (Inr (shared_parent_stores, ()))
   \<and> map fst (concat (map snd (filter (\<lambda>e. fst e = Some ''B'') shared_parent_stores)))
       = [Some ''pnp:C1.0.0B1.0.0'']
   \<and> ''pnp:C1.0.0B1.0.0''
       \<noteq> ''pnp:'' @ sha1_hex (posix_env shared_parent_graph)
                       (concat [''A1'', ''1.0.0'', ''C'', ''1.0.0'', ''B'', ''1.0.0''])
   \<and> ''pnp:C1.0.0B1.0.0''
       \<noteq> ''pnp:'' @ sha1_hex (posix_env shared_parent_graph)
                       (concat [''A2'', ''1.0.0'', ''C'', ''1.0.0'', ''B'', ''1.0.0''])"
  by code_simp

lemma virtual_graph_entry:
  assumes "getResolverEntry (posix_env virtual_graph) q = Inr (Some (pkg, ref, loc))"
    and "q = ''B@1'' \<or> q = ''P@1'' \<or> q = ''P@2''"
    and "pkg_name pkg = ''B''"
  shows "pkg = package ''B'' ''1.0.0'' [''P''] ''/cache/B'' []"
  using assms
  by (auto simp: getResolverEntry_def posix_env_def virtual_graph_def package_def truthy_def)

theorem virtual_reference_witness:
  "pass2 2 (posix_env virtual_graph) [''A1@1'', ''A2@1'']
       [(''A1'', ''1.0.0''), (''A2'', ''1.0.0'')]
       [(''A1'', ''/cache/A1''), (''A2'', ''/cache/A2'')] [] ()
     = Some (Inr (virtual_stores, ()))
   \<and> (\<exists>info. store_lookup virtual_stores (Some ''A1'') (Some ''1.0.0'') = Some info
          \<and> map_of (packageDependencies info) ''B'' = Some ''pnp:A11.0.0B1.0.0'')
   \<and> (\<exists>info. store_lookup virtual_stores (Some ''B'') (Some ''pnp:A11.0.0B1.0.0'') = Some info)
   \<and> pass2 1 (posix_env virtual_graph) [''B@1'', ''P@1'']
         [(''B'', ''pnp:A11.0.0B1.0.0''), (''P'', ''1.0.0'')]
         [(''B'', ''/cache/B/pnp-A11.0.0B1.0.0''), (''P'', ''/cache/P1'')] virtual_before ()
       = Some (Inr (virtual_after, ()))
   \<and> (\<exists>info. store_lookup virtual_after (Some ''B'') (Some ''pnp:A11.0.0B1.0.0'') = Some info
          \<and> map_of (packageDependencies info) ''P'' = Some ''1.0.0'')
   \<and> pass2 2 (posix_env virtual_graph) [''A2@1'']
       [(''A1'', ''1.0.0''), (''A2'', ''1.0.0'')]
       [(''A1'', ''/cache/A1''), (''A2'', ''/cache/A2'')] virtual_mid ()
     = Some (Inr (virtual_stores, ()))
   \<and> (\<exists>info1 info2.
          store_lookup virtual_stores (Some ''A1'') (Some ''1.0.0'') = Some info1
        \<and> store_lookup virtual_stores (Some ''A2'') (Some ''1.0.0'') = Some info2
        \<and> map_of (packageDependencies info1) ''B'' \<noteq> map_of (packageDependencies info2) ''B'')
   \<and> (\<exists>built root.
          getPackageInformationStores 2 (posix_env virtual_graph) ''/proj'' [''B@1'', ''P@1''] ()
            = Some (Inr (built, ()))
        \<and> store_lookup built None None = Some root
        \<and> map_of (packageDependencies root) ''B'' = Some ''pnp:B1.0.0''
        \<and> (\<exists>info. store_lookup built (Some ''B'') (Some ''pnp:B1.0.0'') = Some info))"
proof -
  let ?env = "posix_env virtual_graph"
  let ?A1 = "package ''A1'' ''1.0.0'' [] ''/cache/A1'' [''B@1'', ''P@1'']"
  let ?A2 = "package ''A2'' ''1.0.0'' [] ''/cache/A2'' [''B@1'', ''P@2'']"
  let ?B = "package ''B'' ''1.0.0'' [''P''] ''/cache/B'' []"
  let ?refA1 = "\<lparr>ref_location = Some ''/cache/A1'', ref_dependencies = [''B@1'', ''P@1'']\<rparr>"
  let ?refA2 = "\<lparr>ref_location = Some ''/cache/A2'', ref_dependencies = [''B@1'', ''P@2'']\<rparr>"
  let ?refB = "\<lparr>ref_location = Some ''/cache/B'', ref_dependencies = []\<rparr>"
  let ?res = "[(''A1'', ''1.0.0''), (''A2'', ''1.0.0'')]"
  let ?locs = "[(''A1'', ''/cache/A1''), (''A2'', ''/cache/A2'')]"
  let ?resA1 = "[(''B'', ''pnp:A11.0.0B1.0.0''), (''P'', ''1.0.0'')]"
  let ?locsA1 = "[(''B'', ''/cache/B/pnp-A11.0.0B1.0.0''), (''P'', ''/cache/P1'')]"
  have names: "pkg_name ?A1 = ''A1''" "pkg_name ?A2 = ''A2''" "pkg_name ?B = ''B''"
    and versions: "pkg_version ?B = ''1.0.0''"
    and peers: "pkg_peerDependencies ?A1 = []" "pkg_peerDependencies ?A2 = []"
      "pkg_peerDependencies ?B = [''P'']"
    and virtual: "pkg_peerDependencies ?B \<noteq> []"
    by (simp_all add: package_def)
  have entryA1: "getResolverEntry ?env ''A1@1'' = Inr (Some (?A1, ?refA1, ''/cache/A1''))"
    and entryA2: "getResolverEntry ?env ''A2@1'' = Inr (Some (?A2, ?refA2, ''/cache/A2''))"
    and entryB: "getResolverEntry ?env ''B@1'' = Inr (Some (?B, ?refB, ''/cache/B''))"
    by code_simp+
  have directA1: "directDependencies ?env (pkg_peerDependencies ?A1) ?refA1 = [''B@1'', ''P@1'']"
    and directA2: "directDependencies ?env (pkg_peerDependencies ?A2) ?refA2 = [''B@1'', ''P@2'']"
    by code_simp+
  have memberA1: "''B@1'' \<in> set (directDependencies ?env (pkg_peerDependencies ?A1) ?refA1)"
    and memberA2: "''B@1'' \<in> set (directDependencies ?env (pkg_peerDependencies ?A2) ?refA2)"
    unfolding directA1 directA2 by simp_all
  have oneA1: "\<forall>q \<in> set (directDependencies ?env (pkg_peerDependencies ?A1) ?refA1).
      \<forall>pkg' ref' loc'.
        getResolverEntry ?env q = Inr (Some (pkg', ref', loc')) \<and> pkg_name pkg' = pkg_name ?B
          \<longrightarrow> pkg' = ?B"
    unfolding directA1 names by (auto dest: virtual_graph_entry)
  have oneA2: "\<forall>q \<in> set (directDependencies ?env (pkg_peerDependencies ?A2) ?refA2).
      \<forall>pkg' ref' loc'.
        getResolverEntry ?env q = Inr (Some (pkg', ref', loc')) \<and> pkg_name pkg' = pkg_name ?B
          \<longrightarrow> pkg' = ?B"
    unfolding directA2 names by (auto dest: virtual_graph_entry)
  have runA1: "pass2 2 ?env (''A1@1'' # [''A2@1'']) ?res ?locs [] ()
      = Some (Inr (virtual_stores, ()))"
    by code_simp
  have rA1: "truthy (map_of ?res (pkg_name ?A1)) = Some ''1.0.0''"
    and rA2: "truthy (map_of ?res (pkg_name ?A2)) = Some ''1.0.0''"
    by code_simp+
  have freshA1: "store_lookup [] (Some (pkg_name ?A1)) (Some ''1.0.0'') = None"
    and freshA2: "store_lookup virtual_mid (Some (pkg_name ?A2)) (Some ''1.0.0'') = None"
    by code_simp+
  have digestA1: "''pnp:'' @ sha1_hex ?env (concat [pkg_name ?A1, ''1.0.0'', pkg_name ?B, pkg_version ?B])
      = ''pnp:A11.0.0B1.0.0''"
    by code_simp
  from virtual_reference [THEN conjunct1, THEN mp,
      OF conjI [OF runA1 conjI [OF entryA1 conjI [OF rA1 freshA1]]]]
  obtain info
    where info: "store_lookup virtual_stores (Some (pkg_name ?A1)) (Some ''1.0.0'') = Some info"
      and direct: "\<forall>dependency \<in> set (directDependencies ?env (pkg_peerDependencies ?A1) ?refA1).
          \<forall>dpkg dref dloc.
            getResolverEntry ?env dependency = Inr (Some (dpkg, dref, dloc))
          \<and> pkg_peerDependencies dpkg \<noteq> []
          \<and> (\<forall>q \<in> set (directDependencies ?env (pkg_peerDependencies ?A1) ?refA1).
               \<forall>pkg' ref' loc'.
                 getResolverEntry ?env q = Inr (Some (pkg', ref', loc'))
                 \<and> pkg_name pkg' = pkg_name dpkg \<longrightarrow> pkg' = dpkg)
          \<longrightarrow> map_of (packageDependencies info) (pkg_name dpkg)
                = Some (''pnp:'' @ sha1_hex ?env
                          (concat [pkg_name ?A1, ''1.0.0'', pkg_name dpkg, pkg_version dpkg]))
            \<and> (\<exists>dinfo. store_lookup virtual_stores (Some (pkg_name dpkg))
                   (Some (''pnp:'' @ sha1_hex ?env
                            (concat [pkg_name ?A1, ''1.0.0'', pkg_name dpkg, pkg_version dpkg])))
                 = Some dinfo)"
    by blast
  from direct [rule_format, OF memberA1, of ?B ?refB "''/cache/B''",
      OF conjI [OF entryB conjI [OF virtual oneA1]]]
  have recorded: "map_of (packageDependencies info) (pkg_name ?B) = Some ''pnp:A11.0.0B1.0.0''"
    and registered: "\<exists>dinfo. store_lookup virtual_stores (Some (pkg_name ?B))
        (Some ''pnp:A11.0.0B1.0.0'') = Some dinfo"
    unfolding digestA1 by blast+
  from info recorded
  have first: "\<exists>info. store_lookup virtual_stores (Some ''A1'') (Some ''1.0.0'') = Some info
      \<and> map_of (packageDependencies info) ''B'' = Some ''pnp:A11.0.0B1.0.0''"
    unfolding names by blast
  from registered
  have second: "\<exists>info. store_lookup virtual_stores (Some ''B'') (Some ''pnp:A11.0.0B1.0.0'')
      = Some info"
    unfolding names .
  have runB: "pass2 1 ?env (''B@1'' # [''P@1'']) ?resA1 ?locsA1 virtual_before ()
      = Some (Inr (virtual_after, ()))"
    by code_simp
  have rB: "truthy (map_of ?resA1 (pkg_name ?B)) = Some ''pnp:A11.0.0B1.0.0''"
    by code_simp
  have freshB: "store_lookup virtual_before (Some (pkg_name ?B)) (Some ''pnp:A11.0.0B1.0.0'') = None"
    by code_simp
  have peerB: "truthy (map_of ?resA1 ''P'') = Some ''1.0.0''"
    by code_simp
  from virtual_reference [THEN conjunct1, THEN mp,
      OF conjI [OF runB conjI [OF entryB conjI [OF rB freshB]]]]
  obtain infoB
    where "store_lookup virtual_after (Some (pkg_name ?B)) (Some ''pnp:A11.0.0B1.0.0'') = Some infoB"
      and "\<forall>d \<in> set (pkg_peerDependencies ?B).
          map_of (packageDependencies infoB) d = truthy (map_of ?resA1 d)"
    by blast
  then have third: "\<exists>info. store_lookup virtual_after (Some ''B'') (Some ''pnp:A11.0.0B1.0.0'')
        = Some info
      \<and> map_of (packageDependencies info) ''P'' = Some ''1.0.0''"
    unfolding names peers using peerB by auto
  have runA2: "pass2 2 ?env (''A2@1'' # []) ?res ?locs virtual_mid ()
      = Some (Inr (virtual_stores, ()))"
    by code_simp
  have digests: "sha1_hex ?env (concat [pkg_name ?A1, ''1.0.0'', pkg_name ?B, pkg_version ?B])
      \<noteq> sha1_hex ?env (concat [pkg_name ?A2, ''1.0.0'', pkg_name ?B, pkg_version ?B])"
    by code_simp
  from virtual_reference [THEN conjunct2, THEN conjunct1, THEN mp,
      OF conjI [OF runA1 conjI [OF entryA1 conjI [OF rA1 conjI [OF freshA1
         conjI [OF memberA1 conjI [OF entryB conjI [OF oneA1
         conjI [OF runA2 conjI [OF entryA2 conjI [OF rA2 conjI [OF freshA2
         conjI [OF memberA2 conjI [OF entryB conjI [OF oneA2 virtual]]]]]]]]]]]]]]]
    digests
  have fourth: "\<exists>info1 info2.
          store_lookup virtual_stores (Some ''A1'') (Some ''1.0.0'') = Some info1
        \<and> store_lookup virtual_stores (Some ''A2'') (Some ''1.0.0'') = Some info2
        \<and> map_of (packageDependencies info1) ''B'' \<noteq> map_of (packageDependencies info2) ''B''"
    unfolding names by blast
  have build: "getPackageInformationStores 2 ?env ''/proj'' [''B@1'', ''P@1''] ()
      = Some (Inr
          ([(Some ''B'', [(Some ''pnp:B1.0.0'',
               \<lparr>packageLocation = ''/cache/B/pnp-B1.0.0/'', packageMainEntry = None,
                packageDependencies = [(''P'', ''1.0.0'')]\<rparr>)]),
            (Some ''P'', [(Some ''1.0.0'',
               \<lparr>packageLocation = ''/cache/P1/'', packageMainEntry = None,
                packageDependencies = []\<rparr>)]),
            (None, [(None,
               \<lparr>packageLocation = ''/proj/'', packageMainEntry = None,
                packageDependencies = [(''B'', ''pnp:B1.0.0''), (''P'', ''1.0.0'')]\<rparr>)])], ()))"
    (is "_ = Some (Inr (?built, ()))")
    by code_simp
  have seed: "''B@1'' \<in> set [''B@1'', ''P@1'']"
    by simp
  have oneRoot: "\<forall>q \<in> set [''B@1'', ''P@1'']. \<forall>pkg' ref' loc'.
        getResolverEntry ?env q = Inr (Some (pkg', ref', loc')) \<and> pkg_name pkg' = pkg_name ?B
          \<longrightarrow> pkg' = ?B"
    unfolding names by (auto dest: virtual_graph_entry)
  have digestRoot: "''pnp:'' @ sha1_hex ?env (concat [pkg_name ?B, pkg_version ?B]) = ''pnp:B1.0.0''"
    by code_simp
  from virtual_reference [THEN conjunct2, THEN conjunct2, THEN mp,
      OF conjI [OF build conjI [OF seed conjI [OF entryB conjI [OF virtual oneRoot]]]]]
  have "(\<exists>root. store_lookup ?built None None = Some root
          \<and> map_of (packageDependencies root) (pkg_name ?B) = Some ''pnp:B1.0.0'')
      \<and> (\<exists>info. store_lookup ?built (Some (pkg_name ?B)) (Some ''pnp:B1.0.0'') = Some info)"
    unfolding digestRoot .
  then have "(\<exists>root. store_lookup ?built None None = Some root
          \<and> map_of (packageDependencies root) ''B'' = Some ''pnp:B1.0.0'')
      \<and> (\<exists>info. store_lookup ?built (Some ''B'') (Some ''pnp:B1.0.0'') = Some info)"
    unfolding names .
  with build have fifth: "\<exists>built root.
          getPackageInformationStores 2 ?env ''/proj'' [''B@1'', ''P@1''] ()
            = Some (Inr (built, ()))
        \<and> store_lookup built None None = Some root
        \<and> map_of (packageDependencies root) ''B'' = Some ''pnp:B1.0.0''
        \<and> (\<exists>info. store_lookup built (Some ''B'') (Some ''pnp:B1.0.0'') = Some info)"
    by blast
  from runA1 first second runB third runA2 fourth fifth show ?thesis
    by (intro conjI)
qed

subsection \<open>Fuel\<close>




subsection \<open>Termination\<close>











subsection \<open>A cycle of two packages\<close>

lemma pass2_entry_fresh:
  assumes "getResolverEntry env p = Inr (Some (pkg, ref, loc))"
    and "truthy (map_of res (pkg_name pkg)) = Some r"
    and "truthy (map_of locs (pkg_name pkg)) = Some l"
    and "store_lookup st (Some (pkg_name pkg)) (Some r) = None"
  shows "pass2_entry env p res locs st
     = Inr (Recurse pkg ref r (register_information (pkg_name pkg) r (new_information env pkg l) st))"
  using assms
  by (auto simp: pass2_entry_def store_of_def store_lookup_def register_information_def
        new_information_def split: option.splits)










subsection \<open>A cycle through peer dependencies and a digest without collisions\<close>

text \<open>
  The digest is taken of the concatenation of the tokens: package \<open>a\<close> 11.0.0 and
  package \<open>a1\<close> 1.0.0 are parents that give a dependency the same virtual reference,
  with every digest.
\<close>

lemma getHashFrom_concatenation:
  "getHashFrom env [''a'', ''11.0.0'', n, v] = getHashFrom env [''a1'', ''1.0.0'', n, v]"
  by (simp add: getHashFrom_def)

lemma peers_cycle_entry:
  "getResolverEntry (posix_env peers_cycle_graph) ''A@1''
     = Inr (Some (package ''A'' ''1.0.0'' [''P''] ''/cache/A'' [''B@1''],
                  \<lparr>ref_location = Some ''/cache/A'', ref_dependencies = [''B@1'']\<rparr>, ''/cache/A''))"
  "getResolverEntry (posix_env peers_cycle_graph) ''B@1''
     = Inr (Some (package ''B'' ''1.0.0'' [''Q''] ''/cache/B'' [''A@1''],
                  \<lparr>ref_location = Some ''/cache/B'', ref_dependencies = [''A@1'']\<rparr>, ''/cache/B''))"
  by code_simp+

lemma peers_cycle_direct:
  "directDependencies (posix_env peers_cycle_graph) [''P'']
     \<lparr>ref_location = Some ''/cache/A'', ref_dependencies = [''B@1'']\<rparr> = [''B@1'']"
  "directDependencies (posix_env peers_cycle_graph) [''Q'']
     \<lparr>ref_location = Some ''/cache/B'', ref_dependencies = [''A@1'']\<rparr> = [''A@1'']"
  by code_simp+

lemma pass1_single_virtual:
  assumes "getResolverEntry env p = Inr (Some (pkg, ref, loc))"
    and "pkg_peerDependencies pkg \<noteq> []"
    and "fs_symlink env fs loc (location_of env pd pkg loc) = Some fs'"
  shows "pass1 env pd [p] [] [] fs
     = Inr ([(pkg_name pkg, reference_of env pd pkg)],
            [(pkg_name pkg, location_of env pd pkg loc)], fs')"
  using assms by (simp add: reference_of_def location_of_def Let_def)

lemma references_below_register:
  assumes "references_below k st" and "length r < k'" and "k \<le> k'"
  shows "references_below k' (register_information n r info st)"
  unfolding references_below_def
proof (intro allI impI)
  fix m q
  assume "store_lookup (register_information n r info st) (Some m) (Some q) \<noteq> None"
  then have "q = r \<or> store_lookup st (Some m) (Some q) \<noteq> None"
    by (auto simp: store_lookup_register split: if_splits)
  then show "length q < k'"
  proof
    assume "q = r"
    with assms(2) show ?thesis by simp
  next
    assume "store_lookup st (Some m) (Some q) \<noteq> None"
    with assms(1) have "length q < k" by (simp add: references_below_def)
    with assms(3) show ?thesis by simp
  qed
qed

lemma peers_cycle_step:
  assumes p: "(p = ''A@1'' \<and> x = ''A'' \<and> y = ''B@1'') \<or> (p = ''B@1'' \<and> x = ''B'' \<and> y = ''A@1'')"
    and below: "references_below (length (concat pd) + 10) st"
    and next_diverges: "\<And>st'. references_below (length (concat [x, ''pnp:'' @ concat pd @ x @ ''1.0.0'']) + 10) st'
        \<Longrightarrow> visit n (posix_env peers_cycle_graph) [y] [x, ''pnp:'' @ concat pd @ x @ ''1.0.0''] st' () = None"
  shows "visit (Suc n) (posix_env peers_cycle_graph) [p] pd st () = None"
proof -
  let ?env = "posix_env peers_cycle_graph"
  let ?r = "''pnp:'' @ concat pd @ x @ ''1.0.0''"
  let ?l = "(if x = ''A'' then ''/cache/A'' else ''/cache/B'') @ ''/pnp-'' @ concat pd @ x @ ''1.0.0''"
  have "\<exists>pkg ref loc. getResolverEntry ?env p = Inr (Some (pkg, ref, loc))
      \<and> pkg_name pkg = x \<and> pkg_peerDependencies pkg \<noteq> []
      \<and> directDependencies ?env (pkg_peerDependencies pkg) ref = [y]
      \<and> pass1 ?env pd [p] [] [] () = Inr ([(x, ?r)], [(x, ?l)], ())"
    using p
  proof
    assume a: "p = ''A@1'' \<and> x = ''A'' \<and> y = ''B@1''"
    have "pass1 ?env pd [''A@1''] [] [] ()
        = Inr ([(''A'', ''pnp:'' @ concat pd @ ''A'' @ ''1.0.0'')],
               [(''A'', ''/cache/A'' @ ''/pnp-'' @ concat pd @ ''A'' @ ''1.0.0'')], ())"
      using pass1_single_virtual [OF peers_cycle_entry(1), of "()" pd "()"]
      by (simp add: package_def posix_env_def getHashFrom_def reference_of_def location_of_def)
    with a peers_cycle_entry(1) peers_cycle_direct(1) show ?thesis
      by (simp add: package_def)
  next
    assume b: "p = ''B@1'' \<and> x = ''B'' \<and> y = ''A@1''"
    have "pass1 ?env pd [''B@1''] [] [] ()
        = Inr ([(''B'', ''pnp:'' @ concat pd @ ''B'' @ ''1.0.0'')],
               [(''B'', ''/cache/B'' @ ''/pnp-'' @ concat pd @ ''B'' @ ''1.0.0'')], ())"
      using pass1_single_virtual [OF peers_cycle_entry(2), of "()" pd "()"]
      by (simp add: package_def posix_env_def getHashFrom_def reference_of_def location_of_def)
    with b peers_cycle_entry(2) peers_cycle_direct(2) show ?thesis
      by (simp add: package_def)
  qed
  then obtain pkg ref loc where entry: "getResolverEntry ?env p = Inr (Some (pkg, ref, loc))"
    and name: "pkg_name pkg = x" and peers: "pkg_peerDependencies pkg \<noteq> []"
    and direct: "directDependencies ?env (pkg_peerDependencies pkg) ref = [y]"
    and first: "pass1 ?env pd [p] [] [] () = Inr ([(x, ?r)], [(x, ?l)], ())"
    by blast
  from p have lx: "length x = 1" by auto
  have "length ?r = length (concat pd) + 10"
    using lx by simp
  with below have fresh: "store_lookup st (Some x) (Some ?r) = None"
    by (fastforce simp: references_below_def)
  have "truthy (map_of [(x, ?r)] (pkg_name pkg)) = Some ?r"
      "truthy (map_of [(x, ?l)] (pkg_name pkg)) = Some ?l"
    by (simp_all add: name truthy_def)
  from pass2_entry_fresh [OF entry this] fresh
  have it: "pass2_entry ?env p [(x, ?r)] [(x, ?l)] st
      = Inr (Recurse pkg ref ?r (register_information x ?r (new_information ?env pkg ?l) st))"
    by (simp add: name)
  have "references_below (length (concat [x, ?r]) + 10)
          (register_information x ?r (new_information ?env pkg ?l) st)"
    using below by (rule references_below_register) simp_all
  then have "visit n ?env [y] [x, ?r] (register_information x ?r (new_information ?env pkg ?l) st) ()
      = None"
    by (rule next_diverges)
  with it direct have "pass2 n ?env [p] [(x, ?r)] [(x, ?l)] st () = None"
    by (simp add: name)
  with first show ?thesis by simp
qed

text \<open>
  With a digest that never collides (here the identity), the visit of a cycle of two
  packages that both have peer dependencies never returns, whatever the fuel: each
  round meets the packages under new, longer references.
\<close>

lemma peers_cycle_diverges:
  assumes "p = ''A@1'' \<or> p = ''B@1''"
    and "references_below (length (concat pd) + 10) st"
  shows "visit n (posix_env peers_cycle_graph) [p] pd st () = None"
  using assms
proof (induction n arbitrary: p pd st)
  case 0
  then show ?case by simp
next
  case (Suc n)
  from Suc.prems(1) show ?case
  proof
    assume "p = ''A@1''"
    then have "(p = ''A@1'' \<and> ''A'' = ''A'' \<and> ''B@1'' = ''B@1'')
        \<or> (p = ''B@1'' \<and> ''A'' = ''B'' \<and> ''B@1'' = ''A@1'')"
      by simp
    then show ?thesis
      using Suc.prems(2) by (rule peers_cycle_step) (rule Suc.IH, simp_all)
  next
    assume "p = ''B@1''"
    then have "(p = ''A@1'' \<and> ''B'' = ''A'' \<and> ''A@1'' = ''B@1'')
        \<or> (p = ''B@1'' \<and> ''B'' = ''B'' \<and> ''A@1'' = ''A@1'')"
      by simp
    then show ?thesis
      using Suc.prems(2) by (rule peers_cycle_step) (rule Suc.IH, simp_all)
  qed
qed

text \<open>
  When both packages of a cycle have a peer dependency, the reference of each level is
  made from the reference of the level above, which is new; with a digest that has no
  collisions no pair of name and reference is met a second time, and \<open>visit\<close> returns
  for no fuel. The comment at the insertion in the source says that registering before
  recursing prevents cyclic dependencies from looping indefinitely; for this cycle it
  does not.
\<close>

lemma peers_cycle_never_returns:
  "visit n (posix_env peers_cycle_graph) [''A@1''] [] [] () = None"
  by (rule peers_cycle_diverges) (simp_all add: references_below_def store_lookup_def)

subsection \<open>A location with dollar signs\<close>

text \<open>
  C4 on the artifact that is delivered. The generated text is the replacement argument
  of \<open>String.prototype.replace\<close>, which reads \<open>$$\<close> in it as one dollar sign. For a
  package unpacked in \<open>/a$$b\<close> the stores hold the location \<open>/a$$b/\<close>, of length 6,
  and the length tests are those of the lengths 6 and 5; but the tables of the
  delivered text are those of a store that holds \<open>/a$b/\<close>, of length 5, in its
  place. So \<open>locatorsByLocations\<close> has the key \<open>/a$b/\<close>, which is no
  \<open>packageLocation\<close> of the stores, and has no key \<open>/a$$b/\<close>: the prefix that the
  test of length 5 reads from \<open>/a$b/x.js\<close> is a key without being a registered
  location, and the prefix that the test of length 6 reads from \<open>/a$$b/x.js\<close> is a
  registered location without being a key.
\<close>

theorem generatePnpMap_dollar_location:
  "getPackageInformationStores 2 (posix_env dollar_graph) ''/pro'' [''p@1''] ()
     = Some (Inr (dollar_stores, ()))
   \<and> generatePnpMap 2 (posix_env dollar_graph) marker ''/pro'' [''p@1''] ()
     = Some (Inr (generateMaps shipped_stores @ generateFindPackageLocator dollar_stores, ()))
   \<and> generateMaps shipped_stores \<noteq> generateMaps dollar_stores
   \<and> packageLocations dollar_stores = [''/a$$b/'', ''/pro/'']
   \<and> packageLocations shipped_stores = [''/a$b/'', ''/pro/'']
   \<and> map fst (sortedLengths dollar_stores) = [6, 5]
   \<and> take 5 ''/a$b/x.js'' \<in> set (packageLocations shipped_stores)
   \<and> take 5 ''/a$b/x.js'' \<notin> set (packageLocations dollar_stores)
   \<and> take 6 ''/a$$b/x.js'' \<in> set (packageLocations dollar_stores)
   \<and> take 6 ''/a$$b/x.js'' \<notin> set (packageLocations shipped_stores)"
  by code_simp

end
